theory Spec2Isabelle
  imports Complex_Main "HOL-Library.Sublist" "HOL-Library.Multiset" "HOL-Library.Log_Nat"
begin

section \<open>JavaScript numbers\<close>

text \<open>
  The route computes with JavaScript numbers: IEEE 754 double precision values. A
  \<open>jsnum\<close> is a finite double (carried as the real number it denotes), one of the two
  infinities, or NaN. Every arithmetic operation computes the exact real result and rounds
  it to the nearest double, ties to even (\<open>fl\<close>); a result of magnitude \<open>2 ^ 1024\<close> or
  more after rounding is an infinity. Negative zero is identified with zero: the route
  never divides by a zero that could be negative (its zero denominators are sums started
  at \<open>0\<close> and array lengths), and nothing else tells the two zeros apart.
  Amounts read from the store (\<open>totalAmount\<close>, \<open>item.total\<close>) are finite doubles and are
  given as reals.
\<close>

datatype jsnum = Fin real | PosInf | NegInf | NaN

text \<open>Rounding a real to the nearest integer, a tie to the even neighbour.\<close>

definition roundHalfEven :: "real \<Rightarrow> int" where
  "roundHalfEven z =
     (let f = \<lfloor>z\<rfloor>; d = z - of_int f
      in if d < 1 / 2 then f else if 1 / 2 < d then f + 1 else if even f then f else f + 1)"

text \<open>The binary exponent of a positive real: \<open>2 powi ilog2 a \<le> a < 2 powi (ilog2 a + 1)\<close>.\<close>

definition ilog2 :: "real \<Rightarrow> int" where
  "ilog2 a = (if 1 \<le> a then bitlen \<lfloor>a\<rfloor> - 1 else - bitlen (\<lceil>1 / a\<rceil> - 1))"

text \<open>
  Rounding to double precision: 53 significant bits, the least exponent that of the
  subnormal numbers (multiples of \<open>2 powi - 1074\<close>). \<open>ulpExp x\<close> is the exponent of the
  last bit kept, \<open>roundedAbs x\<close> the magnitude rounded to a multiple of that bit.
\<close>

definition ulpExp :: "real \<Rightarrow> int" where
  "ulpExp x = max (ilog2 \<bar>x\<bar>) (- 1022) - 52"

definition roundedAbs :: "real \<Rightarrow> real" where
  "roundedAbs x = of_int (roundHalfEven (\<bar>x\<bar> / 2 powi ulpExp x)) * 2 powi ulpExp x"

definition fl :: "real \<Rightarrow> jsnum" where
  "fl x =
     (if x = 0 then Fin 0
      else if 2 ^ 1024 \<le> roundedAbs x then (if 0 < x then PosInf else NegInf)
      else Fin (if 0 < x then roundedAbs x else - roundedAbs x))"

text \<open>The double a decimal literal such as \<open>1.1\<close> denotes.\<close>

definition double :: "real \<Rightarrow> real" where
  "double x = (case fl x of Fin y \<Rightarrow> y | _ \<Rightarrow> 0)"

fun js_neg :: "jsnum \<Rightarrow> jsnum" where
  "js_neg (Fin a) = Fin (- a)"
| "js_neg PosInf = NegInf"
| "js_neg NegInf = PosInf"
| "js_neg NaN = NaN"

fun js_add :: "jsnum \<Rightarrow> jsnum \<Rightarrow> jsnum" where
  "js_add (Fin a) (Fin b) = fl (a + b)"
| "js_add NaN _ = NaN"
| "js_add _ NaN = NaN"
| "js_add PosInf NegInf = NaN"
| "js_add NegInf PosInf = NaN"
| "js_add PosInf _ = PosInf"
| "js_add NegInf _ = NegInf"
| "js_add (Fin a) b = b"

definition js_sub :: "jsnum \<Rightarrow> jsnum \<Rightarrow> jsnum" where
  "js_sub a b = js_add a (js_neg b)"

fun js_mul :: "jsnum \<Rightarrow> jsnum \<Rightarrow> jsnum" where
  "js_mul (Fin a) (Fin b) = fl (a * b)"
| "js_mul NaN _ = NaN"
| "js_mul _ NaN = NaN"
| "js_mul PosInf (Fin b) = (if b = 0 then NaN else if 0 < b then PosInf else NegInf)"
| "js_mul NegInf (Fin b) = (if b = 0 then NaN else if 0 < b then NegInf else PosInf)"
| "js_mul (Fin a) PosInf = (if a = 0 then NaN else if 0 < a then PosInf else NegInf)"
| "js_mul (Fin a) NegInf = (if a = 0 then NaN else if 0 < a then NegInf else PosInf)"
| "js_mul PosInf PosInf = PosInf"
| "js_mul NegInf NegInf = PosInf"
| "js_mul PosInf NegInf = NegInf"
| "js_mul NegInf PosInf = NegInf"

fun js_div :: "jsnum \<Rightarrow> jsnum \<Rightarrow> jsnum" where
  "js_div (Fin a) (Fin b) =
     (if b = 0 then (if a = 0 then NaN else if 0 < a then PosInf else NegInf)
      else fl (a / b))"
| "js_div NaN _ = NaN"
| "js_div _ NaN = NaN"
| "js_div (Fin a) _ = Fin 0"
| "js_div PosInf (Fin b) = (if 0 \<le> b then PosInf else NegInf)"
| "js_div NegInf (Fin b) = (if 0 \<le> b then NegInf else PosInf)"
| "js_div _ _ = NaN"

text \<open>\<open>a > b\<close>: false whenever an operand is NaN.\<close>

fun js_gt :: "jsnum \<Rightarrow> jsnum \<Rightarrow> bool" where
  "js_gt (Fin a) (Fin b) = (b < a)"
| "js_gt NaN _ = False"
| "js_gt _ NaN = False"
| "js_gt PosInf PosInf = False"
| "js_gt PosInf _ = True"
| "js_gt _ PosInf = False"
| "js_gt NegInf _ = False"
| "js_gt _ NegInf = True"

text \<open>\<open>Number.isFinite\<close>.\<close>

fun isFinite :: "jsnum \<Rightarrow> bool" where
  "isFinite (Fin a) = True"
| "isFinite _ = False"

text \<open>\<open>x || 0\<close> and \<open>if (!x) x = 0\<close> on a number: zero and NaN are falsy.\<close>

definition orZero :: "jsnum \<Rightarrow> jsnum" where
  "orZero v = (if v = Fin 0 \<or> v = NaN then Fin 0 else v)"

text \<open>
  A running total: \<open>0 + x1 + x2 + ...\<close> from left to right, each addition rounded.
\<close>

definition sumDoubles :: "real list \<Rightarrow> jsnum" where
  "sumDoubles xs = foldl (\<lambda>s x. js_add s (Fin x)) (Fin 0) xs"

text \<open>\<open>Math.ceil(a / b)\<close> for integers \<open>a\<close> and a positive integer \<open>b\<close>.\<close>

definition ceil_div :: "int \<Rightarrow> int \<Rightarrow> int" where
  "ceil_div a b = - ((- a) div b)"

text \<open>\<open>Number.prototype.toString\<close> on integers, and zero padding to a width.\<close>

fun toString_nat :: "nat \<Rightarrow> string" where
  "toString_nat n =
     (if n < 10 then [''0123456789'' ! n]
      else toString_nat (n div 10) @ [''0123456789'' ! (n mod 10)])"

declare toString_nat.simps [simp del]

definition toString :: "int \<Rightarrow> string" where
  "toString i = (if i < 0 then CHR ''-'' # toString_nat (nat (- i)) else toString_nat (nat i))"

definition padStart :: "nat \<Rightarrow> string \<Rightarrow> string" where
  "padStart w s = replicate (w - length s) (CHR ''0'') @ s"

section \<open>Dates\<close>

text \<open>
  A \<open>Date\<close> is its time value: milliseconds since 1970-01-01T00:00:00Z, an integer
  (Invalid Date is handled where a date is parsed). The local time zone of the server is
  taken to be UTC, so local calendar fields are the UTC fields and no day is shorter or
  longer than 24 hours. The calendar is the proleptic Gregorian calendar of ECMAScript;
  months are numbered 0 to 11 as \<open>getMonth\<close> does.
\<close>

type_synonym date = int

definition msPerDay :: int where
  "msPerDay = 86400000"

definition msPerHour :: int where
  "msPerHour = 3600000"

definition dayNumber :: "date \<Rightarrow> int" where
  "dayNumber t = t div msPerDay"

definition timeWithinDay :: "date \<Rightarrow> int" where
  "timeWithinDay t = t mod msPerDay"

definition getHours :: "date \<Rightarrow> int" where
  "getHours t = timeWithinDay t div msPerHour"

text \<open>\<open>getDay\<close>: 0 is Sunday; 1970-01-01 was a Thursday.\<close>

definition getDay :: "date \<Rightarrow> int" where
  "getDay t = (dayNumber t + 4) mod 7"

definition isLeapYear :: "int \<Rightarrow> bool" where
  "isLeapYear y = ((y mod 4 = 0 \<and> y mod 100 \<noteq> 0) \<or> y mod 400 = 0)"

text \<open>Days from 1970-01-01 to the first of January of year \<open>y\<close>.\<close>

definition daysBeforeYear :: "int \<Rightarrow> int" where
  "daysBeforeYear y =
     365 * (y - 1970) + ((y - 1) div 4 - (y - 1) div 100 + (y - 1) div 400) - 477"

text \<open>
  The year a day number falls in: an estimate from the mean year length of 365.2425 days,
  moved by one year where the estimate is off.
\<close>

definition yearOfDay :: "int \<Rightarrow> int" where
  "yearOfDay n =
     (let y = 1970 + (400 * n) div 146097 in
      if daysBeforeYear (y + 1) \<le> n then y + 1
      else if n < daysBeforeYear y then y - 1
      else y)"

definition getFullYear :: "date \<Rightarrow> int" where
  "getFullYear t = yearOfDay (dayNumber t)"

definition daysInMonth :: "int \<Rightarrow> int \<Rightarrow> int" where
  "daysInMonth y m =
     (if m = 1 then (if isLeapYear y then 29 else 28)
      else if m = 3 \<or> m = 5 \<or> m = 8 \<or> m = 10 then 30
      else 31)"

text \<open>Days of year \<open>y\<close> before the first of month \<open>m\<close>.\<close>

definition daysBeforeMonth :: "int \<Rightarrow> int \<Rightarrow> int" where
  "daysBeforeMonth y m =
     (if m \<le> 0 then 0 else if m = 1 then 31
      else (if isLeapYear y then 1 else 0) +
        (if m = 2 then 59 else if m = 3 then 90 else if m = 4 then 120
         else if m = 5 then 151 else if m = 6 then 181 else if m = 7 then 212
         else if m = 8 then 243 else if m = 9 then 273 else if m = 10 then 304
         else 334))"

text \<open>Day of the year, counted from 0.\<close>

definition dayOfYear :: "date \<Rightarrow> int" where
  "dayOfYear t = dayNumber t - daysBeforeYear (getFullYear t)"

definition getMonth :: "date \<Rightarrow> int" where
  "getMonth t =
     (let y = getFullYear t; d = dayOfYear t in
      if d < daysBeforeMonth y 1 then 0 else if d < daysBeforeMonth y 2 then 1
      else if d < daysBeforeMonth y 3 then 2 else if d < daysBeforeMonth y 4 then 3
      else if d < daysBeforeMonth y 5 then 4 else if d < daysBeforeMonth y 6 then 5
      else if d < daysBeforeMonth y 7 then 6 else if d < daysBeforeMonth y 8 then 7
      else if d < daysBeforeMonth y 9 then 8 else if d < daysBeforeMonth y 10 then 9
      else if d < daysBeforeMonth y 11 then 10 else 11)"

text \<open>\<open>getDate\<close>: the day of the month, from 1.\<close>

definition getDate :: "date \<Rightarrow> int" where
  "getDate t = dayOfYear t - daysBeforeMonth (getFullYear t) (getMonth t) + 1"

text \<open>
  Midnight of day \<open>d\<close> of month \<open>m\<close> (0 to 11) of year \<open>y\<close>, as \<open>setFullYear(y, m, d)\<close>
  followed by \<open>setHours(0, 0, 0, 0)\<close> gives it.
\<close>

definition makeDate :: "int \<Rightarrow> int \<Rightarrow> int \<Rightarrow> date" where
  "makeDate y m d = (daysBeforeYear y + daysBeforeMonth y m + (d - 1)) * msPerDay"

text \<open>
  \<open>new Date(year, 0, 1)\<close>: the constructor reads a year from 0 to 99 as 1900 + year.
\<close>

definition newDate_year :: "int \<Rightarrow> date" where
  "newDate_year year =
     makeDate (if 0 \<le> year \<and> year \<le> 99 then 1900 + year else year) 0 1"

text \<open>\<open>date.setHours(h, 0, 0, 0)\<close>.\<close>

definition setHours :: "date \<Rightarrow> int \<Rightarrow> date" where
  "setHours t h = t - timeWithinDay t + h * msPerHour"

subsection \<open>date-fns\<close>

definition startOfDay :: "date \<Rightarrow> date" where
  "startOfDay t = t - timeWithinDay t"

definition endOfDay :: "date \<Rightarrow> date" where
  "endOfDay t = startOfDay t + (msPerDay - 1)"

text \<open>The week starts on Sunday (the default \<open>weekStartsOn\<close> of date-fns).\<close>

definition startOfWeek :: "date \<Rightarrow> date" where
  "startOfWeek t = startOfDay t - getDay t * msPerDay"

definition endOfWeek :: "date \<Rightarrow> date" where
  "endOfWeek t = startOfDay t + (6 - getDay t) * msPerDay + (msPerDay - 1)"

definition startOfMonth :: "date \<Rightarrow> date" where
  "startOfMonth t = makeDate (getFullYear t) (getMonth t) 1"

definition endOfMonth :: "date \<Rightarrow> date" where
  "endOfMonth t =
     makeDate (getFullYear t) (getMonth t) (daysInMonth (getFullYear t) (getMonth t))
       + (msPerDay - 1)"

definition startOfYear :: "date \<Rightarrow> date" where
  "startOfYear t = makeDate (getFullYear t) 0 1"

definition endOfYear :: "date \<Rightarrow> date" where
  "endOfYear t = makeDate (getFullYear t + 1) 0 1 - 1"

definition subDays :: "date \<Rightarrow> int \<Rightarrow> date" where
  "subDays t n = t - n * msPerDay"

text \<open>
  \<open>addMonths\<close> keeps the time of day and the day of the month, except that a day past the
  end of the target month becomes that month's last day.
\<close>

definition addMonths :: "date \<Rightarrow> int \<Rightarrow> date" where
  "addMonths t n =
     (if n = 0 then t
      else
        let k = getFullYear t * 12 + getMonth t + n;
            y = k div 12;
            m = k mod 12
        in makeDate y m (min (getDate t) (daysInMonth y m)) + timeWithinDay t)"

definition subMonths :: "date \<Rightarrow> int \<Rightarrow> date" where
  "subMonths t n = addMonths t (- n)"

definition subYears :: "date \<Rightarrow> int \<Rightarrow> date" where
  "subYears t n = addMonths t (- n * 12)"

definition isSameDay :: "date \<Rightarrow> date \<Rightarrow> bool" where
  "isSameDay a b = (startOfDay a = startOfDay b)"

definition isSameMonth :: "date \<Rightarrow> date \<Rightarrow> bool" where
  "isSameMonth a b = (getFullYear a = getFullYear b \<and> getMonth a = getMonth b)"

text \<open>
  \<open>eachDayOfInterval\<close> and \<open>eachMonthOfInterval\<close> walk from the start of the first day
  (month) of the interval while the walking date is not after the interval's end; an
  interval given backwards is walked from its end and the result reversed (date-fns 3
  and 4; date-fns 2 throws a RangeError there).
\<close>

definition eachDayOfInterval :: "date \<Rightarrow> date \<Rightarrow> date list" where
  "eachDayOfInterval s e =
     (let reversed = (e < s);
          lo = (if reversed then e else s);
          hi = (if reversed then s else e);
          dates = map (\<lambda>k. startOfDay lo + k * msPerDay) [0..dayNumber hi - dayNumber lo]
      in if reversed then rev dates else dates)"

definition monthIndex :: "date \<Rightarrow> int" where
  "monthIndex t = getFullYear t * 12 + getMonth t"

definition eachMonthOfInterval :: "date \<Rightarrow> date \<Rightarrow> date list" where
  "eachMonthOfInterval s e =
     (let reversed = (e < s);
          lo = (if reversed then e else s);
          hi = (if reversed then s else e);
          dates = map (\<lambda>k. makeDate ((monthIndex lo + k) div 12) ((monthIndex lo + k) mod 12) 1)
                    [0..monthIndex hi - monthIndex lo]
      in if reversed then rev dates else dates)"

text \<open>
  \<open>format\<close>, for the four patterns the route uses: \<open>EEE\<close>, \<open>MMM\<close>, \<open>MMM dd\<close> and
  \<open>MMM yyyy\<close> (English locale). \<open>yyyy\<close> prints the year of the era.
\<close>

definition format_EEE :: "date \<Rightarrow> string" where
  "format_EEE t = [''Sun'', ''Mon'', ''Tue'', ''Wed'', ''Thu'', ''Fri'', ''Sat''] ! nat (getDay t)"

definition format_MMM :: "date \<Rightarrow> string" where
  "format_MMM t =
     [''Jan'', ''Feb'', ''Mar'', ''Apr'', ''May'', ''Jun'',
      ''Jul'', ''Aug'', ''Sep'', ''Oct'', ''Nov'', ''Dec''] ! nat (getMonth t)"

definition format_dd :: "date \<Rightarrow> string" where
  "format_dd t = padStart 2 (toString (getDate t))"

definition format_yyyy :: "date \<Rightarrow> string" where
  "format_yyyy t =
     (let y = getFullYear t in padStart 4 (toString (if 0 < y then y else 1 - y)))"

definition format :: "date \<Rightarrow> string \<Rightarrow> string" where
  "format t pattern =
     (if pattern = ''EEE'' then format_EEE t
      else if pattern = ''MMM'' then format_MMM t
      else if pattern = ''MMM dd'' then format_MMM t @ '' '' @ format_dd t
      else if pattern = ''MMM yyyy'' then format_MMM t @ '' '' @ format_yyyy t
      else [])"

section \<open>The data the route reads\<close>

text \<open>
  A line item of a transaction's \<open>items\<close> JSON array and a \<open>Transaction\<close> row, with the
  fields the route reads. \<open>category\<close> may be missing from an item.
\<close>

record item =
  productId :: string
  productName :: string
  category :: "string option"
  quantity :: int
  total :: real

record transaction =
  totalAmount :: real
  createdAt :: date
  items :: "item list"

text \<open>
  The request as the handler sees it: the caller identity \<open>auth()\<close> resolves (if any)
  and the query string behind \<open>searchParams.get\<close>.
\<close>

record request =
  userId :: "string option"
  searchParams :: "string \<Rightarrow> string option"

text \<open>Truthiness of a \<open>string | null\<close>: null and the empty string are falsy.\<close>

fun truthy :: "string option \<Rightarrow> bool" where
  "truthy None = False"
| "truthy (Some s) = (s \<noteq> [])"

section \<open>Date windows\<close>

record period =
  start :: date
  end' :: date

record dateRange = period +
  previous :: period

definition getDateRange :: "date \<Rightarrow> string \<Rightarrow> dateRange" where
  "getDateRange now timeframe =
     (if timeframe = ''Today'' then
        \<lparr>start = startOfDay now, end' = endOfDay now,
         previous = \<lparr>start = startOfDay (subDays now 1), end' = endOfDay (subDays now 1)\<rparr>\<rparr>
      else if timeframe = ''Week'' then
        \<lparr>start = startOfWeek now, end' = endOfWeek now,
         previous = \<lparr>start = startOfWeek (subDays now 7), end' = endOfWeek (subDays now 7)\<rparr>\<rparr>
      else if timeframe = ''Month'' then
        \<lparr>start = startOfMonth (subMonths now 11), end' = endOfMonth now,
         previous = \<lparr>start = startOfMonth (subMonths now 23),
                     end' = endOfMonth (subMonths now 12)\<rparr>\<rparr>
      else if timeframe = ''Year'' then
        \<lparr>start = startOfYear (subYears now 2), end' = endOfYear now,
         previous = \<lparr>start = startOfYear (subYears now 3),
                     end' = endOfYear (subYears now 1)\<rparr>\<rparr>
      else
        \<lparr>start = startOfDay now, end' = endOfDay now,
         previous = \<lparr>start = startOfDay (subDays now 1), end' = endOfDay (subDays now 1)\<rparr>\<rparr>)"

text \<open>
  Lines 181 to 194 of the handler. \<open>parse\<close> is \<open>new Date(string)\<close>, with \<open>None\<close> for
  Invalid Date; a window with an invalid bound makes the store query throw, so no window
  is returned then.
\<close>

definition resolveDateRange ::
  "(string \<Rightarrow> date option) \<Rightarrow> date \<Rightarrow> string option \<Rightarrow> string option \<Rightarrow> string option
     \<Rightarrow> dateRange option" where
  "resolveDateRange parse now timeframe startDate endDate =
     (if truthy startDate \<and> truthy endDate then
        (case (parse (the startDate), parse (the endDate)) of
           (Some s, Some e) \<Rightarrow>
             Some \<lparr>start = s, end' = e, previous = \<lparr>start = s - (e - s), end' = s\<rparr>\<rparr>
         | _ \<Rightarrow> None)
      else Some (getDateRange now (if truthy timeframe then the timeframe else ''Today'')))"

section \<open>Trend buckets\<close>

record trendPoint =
  name :: string
  timestamp :: date
  value' :: jsnum

text \<open>The window length in days, rounded up, of the custom-range branch.\<close>

definition daysDiff :: "dateRange \<Rightarrow> int" where
  "daysDiff dr = ceil_div (end' dr - start dr) msPerDay"

text \<open>
  The 24 hourly points on the day of \<open>s\<close>; the custom-range branch (lines 90 to 98) and
  the Today branch (lines 120 to 124) build the same list.
\<close>

definition hourlyPoints :: "date \<Rightarrow> trendPoint list" where
  "hourlyPoints s =
     map (\<lambda>i. \<lparr>name = toString i @ '':00'', timestamp = setHours s i, value' = Fin 0\<rparr>) [0..23]"

definition generateTrendDataPoints :: "date \<Rightarrow> string option \<Rightarrow> dateRange \<Rightarrow> trendPoint list" where
  "generateTrendDataPoints now timeframe dr =
     (if \<not> truthy timeframe then
        (if daysDiff dr \<le> 1 then hourlyPoints (start dr)
         else if daysDiff dr \<le> 31 then
           map (\<lambda>d. \<lparr>name = format d ''MMM dd'', timestamp = d, value' = Fin 0\<rparr>)
             (eachDayOfInterval (start dr) (end' dr))
         else
           map (\<lambda>d. \<lparr>name = format d ''MMM yyyy'', timestamp = d, value' = Fin 0\<rparr>)
             (eachMonthOfInterval (start dr) (end' dr)))
      else if timeframe = Some ''Today'' then hourlyPoints (start dr)
      else if timeframe = Some ''Week'' then
        map (\<lambda>d. \<lparr>name = format d ''EEE'', timestamp = d, value' = Fin 0\<rparr>)
          (eachDayOfInterval (start dr) (end' dr))
      else if timeframe = Some ''Month'' then
        (let monthStart = subMonths (endOfMonth now) 11 in
         map (\<lambda>i. let d = addMonths monthStart i in
                  \<lparr>name = format d ''MMM'', timestamp = d, value' = Fin 0\<rparr>) [0..11])
      else if timeframe = Some ''Year'' then
        map (\<lambda>year. \<lparr>name = toString year, timestamp = newDate_year year, value' = Fin 0\<rparr>)
          (filter (\<lambda>year. year \<le> getFullYear (end' dr))
             (map (\<lambda>i. getFullYear (start dr) + i) [0..2]))
      else [])"

text \<open>The matching predicate of the fill loop (lines 250 to 270).\<close>

definition isMatch :: "string option \<Rightarrow> dateRange \<Rightarrow> date \<Rightarrow> date \<Rightarrow> bool" where
  "isMatch timeframe dr transDate pointDate =
     (if \<not> truthy timeframe then
        (if daysDiff dr \<le> 1 then
           getHours transDate = getHours pointDate \<and> isSameDay transDate pointDate
         else if daysDiff dr \<le> 31 then isSameDay transDate pointDate
         else isSameMonth transDate pointDate)
      else if timeframe = Some ''Today'' then getHours transDate = getHours pointDate
      else if timeframe = Some ''Week'' then isSameDay transDate pointDate
      else if timeframe = Some ''Month'' then isSameMonth transDate pointDate
      else getFullYear transDate = getFullYear pointDate)"

text \<open>
  The fill loop: for every transaction, every bucket is visited in order and a matching
  bucket's value grows by the transaction's amount (\<open>if (!point.value) point.value = 0;
  point.value += transaction.totalAmount\<close>).
\<close>

definition fillPoint :: "string option \<Rightarrow> dateRange \<Rightarrow> transaction \<Rightarrow> trendPoint \<Rightarrow> trendPoint" where
  "fillPoint timeframe dr transaction point =
     (if isMatch timeframe dr (createdAt transaction) (timestamp point)
      then point\<lparr>value' := js_add (orZero (value' point)) (Fin (totalAmount transaction))\<rparr>
      else point)"

definition fillTrendPoints ::
  "string option \<Rightarrow> dateRange \<Rightarrow> transaction list \<Rightarrow> trendPoint list \<Rightarrow> trendPoint list" where
  "fillTrendPoints timeframe dr transactions trendPoints =
     foldl (\<lambda>points transaction. map (fillPoint timeframe dr transaction) points)
       trendPoints transactions"

section \<open>Key figures\<close>

text \<open>\<open>reduce((sum, trans) => sum + trans.totalAmount, 0)\<close>.\<close>

definition sumTotalAmount :: "transaction list \<Rightarrow> jsnum" where
  "sumTotalAmount transactions =
     foldl (\<lambda>sum transaction. js_add sum (Fin (totalAmount transaction))) (Fin 0) transactions"

text \<open>\<open>orders > 0 ? revenue / orders : 0\<close>, for the current and the previous window.\<close>

definition averageValue :: "jsnum \<Rightarrow> nat \<Rightarrow> jsnum" where
  "averageValue revenue' orders' =
     (if 0 < orders' then js_div revenue' (Fin (real orders')) else Fin 0)"

definition revenueChange :: "jsnum \<Rightarrow> jsnum \<Rightarrow> jsnum" where
  "revenueChange totalRev previousRevenue =
     (if js_gt previousRevenue (Fin 0)
      then js_mul (js_div (js_sub totalRev previousRevenue) previousRevenue) (Fin 100)
      else Fin 0)"

definition ordersChange :: "nat \<Rightarrow> nat \<Rightarrow> jsnum" where
  "ordersChange totalOrd previousOrders =
     (if 0 < previousOrders
      then js_mul
             (js_div (js_sub (Fin (real totalOrd)) (Fin (real previousOrders)))
                (Fin (real previousOrders)))
             (Fin 100)
      else Fin 0)"

definition avgValueChange :: "jsnum \<Rightarrow> jsnum \<Rightarrow> jsnum" where
  "avgValueChange avgValue previousAvgValue =
     (if js_gt previousAvgValue (Fin 0)
      then js_mul (js_div (js_sub avgValue previousAvgValue) previousAvgValue) (Fin 100)
      else Fin 0)"

section \<open>Products and categories\<close>

text \<open>
  A JavaScript \<open>Map\<close> keeps its keys in insertion order and \<open>set\<close> on a key that is
  present replaces the value in place: an association list with distinct keys.
\<close>

fun map_set :: "('k \<times> 'v) list \<Rightarrow> 'k \<Rightarrow> 'v \<Rightarrow> ('k \<times> 'v) list" where
  "map_set [] k v = [(k, v)]"
| "map_set ((k', v') # m) k v =
     (if k' = k then (k, v) # m else (k', v') # map_set m k v)"

record productSale =
  sale_name :: string
  sale_quantity :: jsnum
  sale_revenue :: jsnum

definition addProductSale :: "(string \<times> productSale) list \<Rightarrow> item \<Rightarrow> (string \<times> productSale) list" where
  "addProductSale m it =
     (let currentSales =
            (case map_of m (productId it) of
               Some s \<Rightarrow> s
             | None \<Rightarrow> \<lparr>sale_name = productName it, sale_quantity = Fin 0, sale_revenue = Fin 0\<rparr>)
      in map_set m (productId it)
           \<lparr>sale_name = productName it,
            sale_quantity = js_add (sale_quantity currentSales) (Fin (of_int (quantity it))),
            sale_revenue = js_add (sale_revenue currentSales) (Fin (total it))\<rparr>)"

definition productSales :: "transaction list \<Rightarrow> (string \<times> productSale) list" where
  "productSales transactions =
     foldl (\<lambda>m transaction. foldl addProductSale m (items transaction)) [] transactions"

text \<open>
  \<open>Array.prototype.sort\<close> is stable and reads a comparator result that is NaN as 0. The
  comparator \<open>b.revenue - a.revenue\<close> is consistent on the revenues the route computes,
  so the result is the one stable arrangement: the one insertion from the right computes,
  where an element goes in front of the first element it is not greater than.
\<close>

fun insertBy :: "('a \<Rightarrow> 'a \<Rightarrow> jsnum) \<Rightarrow> 'a \<Rightarrow> 'a list \<Rightarrow> 'a list" where
  "insertBy cmp x [] = [x]"
| "insertBy cmp x (y # ys) =
     (if js_gt (cmp x y) (Fin 0) then y # insertBy cmp x ys else x # y # ys)"

definition sortBy :: "('a \<Rightarrow> 'a \<Rightarrow> jsnum) \<Rightarrow> 'a list \<Rightarrow> 'a list" where
  "sortBy cmp xs = foldr (insertBy cmp) xs []"

record topProduct =
  top_id :: string
  top_name :: string
  top_revenue :: jsnum
  top_quantity :: jsnum

definition productEntries :: "transaction list \<Rightarrow> topProduct list" where
  "productEntries transactions =
     map (\<lambda>(k, d). \<lparr>top_id = k, top_name = sale_name d, top_revenue = sale_revenue d,
                    top_quantity = sale_quantity d\<rparr>)
       (productSales transactions)"

definition topProductsOf :: "transaction list \<Rightarrow> topProduct list" where
  "topProductsOf transactions =
     take 5 (sortBy (\<lambda>a b. js_sub (top_revenue b) (top_revenue a)) (productEntries transactions))"

text \<open>\<open>item.category || 'Uncategorized'\<close>: a missing or empty category is falsy.\<close>

definition categoryOf :: "item \<Rightarrow> string" where
  "categoryOf it = (if truthy (category it) then the (category it) else ''Uncategorized'')"

definition addCategoryRevenue :: "(string \<times> jsnum) list \<Rightarrow> item \<Rightarrow> (string \<times> jsnum) list" where
  "addCategoryRevenue m it =
     (let currentRevenue =
            (case map_of m (categoryOf it) of Some r \<Rightarrow> orZero r | None \<Rightarrow> Fin 0)
      in map_set m (categoryOf it) (js_add currentRevenue (Fin (total it))))"

definition categoryRevenue :: "transaction list \<Rightarrow> (string \<times> jsnum) list" where
  "categoryRevenue transactions =
     foldl (\<lambda>m transaction. foldl addCategoryRevenue m (items transaction)) [] transactions"

record categoryShare =
  cat_category :: string
  cat_revenue :: jsnum
  cat_percentage :: jsnum

definition revenueByCategoryOf :: "transaction list \<Rightarrow> categoryShare list" where
  "revenueByCategoryOf transactions =
     map (\<lambda>(c, r). \<lparr>cat_category = c, cat_revenue = r,
                    cat_percentage =
                      js_mul (js_div r (sumTotalAmount transactions)) (Fin 100)\<rparr>)
       (categoryRevenue transactions)"

section \<open>The handler\<close>

record comparison =
  revenue :: jsnum
  sales :: jsnum
  avgOrder :: jsnum
  orders :: jsnum

record keyFigures =
  totalRevenue :: jsnum
  totalOrders :: nat
  avgOrderValue :: jsnum
  previousPeriodComparison :: comparison

record trendEntry =
  trend_name :: string
  trend_value :: jsnum

record analytics =
  metrics :: keyFigures
  salesTrend :: "trendEntry list"
  topProducts :: "topProduct list"
  revenueByCategory :: "categoryShare list"

text \<open>
  The three responses of the handler: 401, 500, and 200 with the object handed to
  \<open>NextResponse.json\<close>.
\<close>

datatype response = Unauthorized | InternalServerError | is_Ok: Ok (body: analytics)

text \<open>
  \<open>findMany\<close> with \<open>createdAt: {gte, lte}\<close>: the rows of the store inside the window, in
  the store's order.
\<close>

definition findMany :: "transaction list \<Rightarrow> date \<Rightarrow> date \<Rightarrow> transaction list" where
  "findMany db gte lte = filter (\<lambda>transaction. gte \<le> createdAt transaction \<and> createdAt transaction \<le> lte) db"

definition metricsOf :: "transaction list \<Rightarrow> transaction list \<Rightarrow> keyFigures" where
  "metricsOf transactions previousTransactions =
     (let totalRev = sumTotalAmount transactions;
          totalOrd = length transactions;
          avgValue = averageValue totalRev totalOrd;
          previousRevenue = sumTotalAmount previousTransactions;
          previousOrders = length previousTransactions;
          previousAvgValue = averageValue previousRevenue previousOrders
      in \<lparr>totalRevenue = totalRev, totalOrders = totalOrd, avgOrderValue = avgValue,
          previousPeriodComparison =
            \<lparr>revenue = revenueChange totalRev previousRevenue,
             sales = ordersChange totalOrd previousOrders,
             avgOrder = avgValueChange avgValue previousAvgValue,
             orders = ordersChange totalOrd previousOrders\<rparr>\<rparr>)"

definition salesTrendOf ::
  "date \<Rightarrow> string option \<Rightarrow> dateRange \<Rightarrow> transaction list \<Rightarrow> trendEntry list" where
  "salesTrendOf now timeframe dr transactions =
     map (\<lambda>point. \<lparr>trend_name = name point, trend_value = orZero (value' point)\<rparr>)
       (fillTrendPoints timeframe dr transactions (generateTrendDataPoints now timeframe dr))"

definition GET :: "(string \<Rightarrow> date option) \<Rightarrow> date \<Rightarrow> transaction list \<Rightarrow> request \<Rightarrow> response" where
  "GET parse now db req =
     (if \<not> truthy (userId req) then Unauthorized
      else
        let timeframe = searchParams req ''timeframe'';
            startDate = searchParams req ''start'';
            endDate = searchParams req ''end''
        in case resolveDateRange parse now timeframe startDate endDate of
             None \<Rightarrow> InternalServerError
           | Some dr \<Rightarrow>
               let transactions = findMany db (start dr) (end' dr);
                   previousTransactions =
                     findMany db (start (previous dr)) (end' (previous dr))
               in Ok \<lparr>metrics = metricsOf transactions previousTransactions,
                      salesTrend = salesTrendOf now timeframe dr transactions,
                      topProducts = topProductsOf transactions,
                      revenueByCategory = revenueByCategoryOf transactions\<rparr>)"

section \<open>Auxiliary definitions and sample data\<close>

text \<open>The day number of the first day of the month with index \<open>k\<close> (year * 12 + month).\<close>

definition monthStartDay :: "int \<Rightarrow> int" where
  "monthStartDay k = daysBeforeYear (k div 12) + daysBeforeMonth (k div 12) (k mod 12)"



text \<open>
  \<open>Number.MIN_VALUE\<close>, the least positive double. Every finite double is a multiple of
  it; \<open>onGrid\<close> holds of the numbers other than NaN whose finite values are.
\<close>

definition MIN_VALUE :: real where
  "MIN_VALUE = 2 powi (- 1074)"

definition onGrid :: "jsnum \<Rightarrow> bool" where
  "onGrid v =
     (case v of
        Fin a \<Rightarrow> of_int \<lfloor>a / MIN_VALUE\<rfloor> * MIN_VALUE = a
      | NaN \<Rightarrow> False
      | _ \<Rightarrow> True)"

text \<open>
  Whole numbers whose magnitudes add up to less than \<open>2 ^ 53\<close>: amounts of which every
  running total is a whole number that a double holds exactly.
\<close>

definition wholeNumbers :: "real list \<Rightarrow> bool" where
  "wholeNumbers xs = ((\<forall>x \<in> set xs. of_int \<lfloor>x\<rfloor> = x) \<and> sum_list (map abs xs) < 2 ^ 53)"



definition matching ::
  "string option \<Rightarrow> dateRange \<Rightarrow> transaction list \<Rightarrow> trendPoint \<Rightarrow> transaction list" where
  "matching timeframe dr transactions point =
     filter (\<lambda>t. isMatch timeframe dr (createdAt t) (timestamp point)) transactions"

text \<open>
  A small store: two sales on 2024-01-12 (09:30 and 10:00 UTC) and one on 2024-01-05.
  Products B and C tie at a revenue of 20; seven products are sold in all.
\<close>

definition exampleItem :: "string \<Rightarrow> string option \<Rightarrow> int \<Rightarrow> real \<Rightarrow> item" where
  "exampleItem p c q t =
     \<lparr>productId = p, productName = p, category = c, quantity = q, total = t\<rparr>"

definition exampleSales :: "transaction list" where
  "exampleSales =
     [\<lparr>totalAmount = 86, createdAt = 1705051800000,
       items = [exampleItem ''A'' (Some ''Rings'') 2 40, exampleItem ''B'' None 1 20,
                exampleItem ''C'' (Some []) 4 20, exampleItem ''E'' None 1 5,
                exampleItem ''F'' None 1 1]\<rparr>,
      \<lparr>totalAmount = 120, createdAt = 1705053600000,
       items = [exampleItem ''A'' (Some ''Rings'') 1 20,
                exampleItem ''D'' (Some ''Chains'') 1 100]\<rparr>,
      \<lparr>totalAmount = 30, createdAt = 1704448800000,
       items = [exampleItem ''G'' None 1 30]\<rparr>]"

text \<open>A sale recorded with a total amount of 0 whose line item still carries a total.\<close>

definition exampleGift :: "transaction list" where
  "exampleGift =
     [\<lparr>totalAmount = 0, createdAt = 1705051800000, items = [exampleItem ''A'' None 1 5]\<rparr>]"

text \<open>Two sales on 2024-03-15, at 09:15 (100) and 09:45 (50) UTC.\<close>

definition exampleMorning :: "transaction list" where
  "exampleMorning =
     [\<lparr>totalAmount = 100, createdAt = 1710494100000, items = []\<rparr>,
      \<lparr>totalAmount = 50, createdAt = 1710495900000, items = []\<rparr>]"

text \<open>
  Three sales on 2024-03-15: 0.1 at 09:15, 0.2 at 10:05 and 0.3 at 10:30 UTC, and the
  window of that day.
\<close>

definition exampleCents :: "transaction list" where
  "exampleCents =
     [\<lparr>totalAmount = double (1 / 10), createdAt = 1710494100000, items = []\<rparr>,
      \<lparr>totalAmount = double (2 / 10), createdAt = 1710497100000, items = []\<rparr>,
      \<lparr>totalAmount = double (3 / 10), createdAt = 1710498600000, items = []\<rparr>]"

definition exampleDay :: dateRange where
  "exampleDay =
     \<lparr>start = 1710460800000, end' = 1710547199999,
      previous = \<lparr>start = 1710374400000, end' = 1710460799999\<rparr>\<rparr>"

text \<open>Two sales of \<open>2 ^ 1023\<close> each, and a single sale of 1.\<close>

definition exampleHuge :: "transaction list" where
  "exampleHuge =
     [\<lparr>totalAmount = 2 ^ 1023, createdAt = 1710494100000, items = []\<rparr>,
      \<lparr>totalAmount = 2 ^ 1023, createdAt = 1710495900000, items = []\<rparr>]"

definition exampleUnit :: "transaction list" where
  "exampleUnit = [\<lparr>totalAmount = 1, createdAt = 1710407700000, items = []\<rparr>]"

text \<open>
  \<open>new Date\<close> on the two date strings the sample requests use (midnight UTC of
  2024-01-11 and of 2024-01-21).
\<close>

definition exampleParse :: "string \<Rightarrow> date option" where
  "exampleParse x =
     (if x = ''2024-01-11'' then Some 1704931200000
      else if x = ''2024-01-21'' then Some 1705795200000
      else None)"

definition exampleRequest :: "string option \<Rightarrow> string option \<Rightarrow> string option \<Rightarrow> request" where
  "exampleRequest timeframe startDate endDate =
     \<lparr>userId = Some ''user_1'',
      searchParams = (\<lambda>k. if k = ''timeframe'' then timeframe
                          else if k = ''start'' then startDate
                          else if k = ''end'' then endDate else None)\<rparr>"

text \<open>The explicit window from 2024-01-11 to 2024-01-21 (midnight UTC) and the window before it.\<close>

definition exampleWindow :: dateRange where
  "exampleWindow =
     \<lparr>start = 1704931200000, end' = 1705795200000,
      previous = \<lparr>start = 1704067200000, end' = 1704931200000\<rparr>\<rparr>"

text \<open>A window from 0099-01-01 to 0101-12-31 (midnight UTC).\<close>

definition exampleYear99 :: dateRange where
  "exampleYear99 =
     \<lparr>start = - 59042995200000, end' = - 58948473600000,
      previous = \<lparr>start = - 59137516800000, end' = - 59042995200000\<rparr>\<rparr>"

text \<open>
  A custom window of ten full days, from the first to the last millisecond (UTC) of
  2024-01-11 to 2024-01-20.
\<close>

definition exampleTenDays :: dateRange where
  "exampleTenDays =
     \<lparr>start = 1704931200000, end' = 1705795199999,
      previous = \<lparr>start = 1704067200001, end' = 1704931200000\<rparr>\<rparr>"

section \<open>Calendar facts\<close>

lemma div_bounds:
  fixes a n :: int
  assumes "0 < n"
  shows "n * (a div n) \<le> a" and "a < n * (a div n) + n"
proof -
  have "a = n * (a div n) + a mod n" by simp
  moreover have "0 \<le> a mod n" using assms by simp
  moreover have "a mod n < n" using assms by simp
  ultimately show "n * (a div n) \<le> a" and "a < n * (a div n) + n" by linarith+
qed

lemma div_unique_int:
  fixes a n q :: int
  assumes "n * q \<le> a" and "a < n * q + n" and "0 < n"
  shows "a div n = q"
proof -
  have "a = n * q + (a - n * q)" by simp
  moreover have "0 \<le> a - n * q" using assms by simp
  moreover have "a - n * q < n" using assms by simp
  ultimately show ?thesis using int_div_pos_eq by blast
qed

lemma div_pred:
  fixes y n :: int
  assumes "0 < n"
  shows "y div n = (y - 1) div n + (if y mod n = 0 then 1 else 0)"
proof (cases "y mod n = 0")
  case True
  then have y: "y = n * (y div n)" by (simp add: mod_eq_0_iff_dvd)
  have "(y - 1) div n = y div n - 1"
  proof (rule div_unique_int)
    show "n * (y div n - 1) \<le> y - 1" using y assms by (simp add: algebra_simps)
    show "y - 1 < n * (y div n - 1) + n" using y by (simp add: algebra_simps) 
    show "0 < n" by fact
  qed
  with True show ?thesis by simp
next
  case False
  have r: "y = n * (y div n) + y mod n" by simp
  have "0 \<le> y mod n" "y mod n < n" using assms by simp_all
  with False have r1: "1 \<le> y mod n" by linarith
  have "(y - 1) div n = y div n"
  proof (rule div_unique_int)
    show "n * (y div n) \<le> y - 1" using r r1 by linarith
    show "y - 1 < n * (y div n) + n" using r \<open>y mod n < n\<close> by linarith
    show "0 < n" by fact
  qed
  with False show ?thesis by simp
qed

lemma mod_0_trans:
  fixes y a b :: int
  assumes "a dvd b" and "y mod b = 0"
  shows "y mod a = 0"
proof -
  have "b dvd y" using assms(2) by (simp add: mod_eq_0_iff_dvd)
  then have "a dvd y" using assms(1) dvd_trans by blast
  then show ?thesis by (simp add: mod_eq_0_iff_dvd)
qed

lemma daysBeforeYear_next:
  "daysBeforeYear (y + 1) = daysBeforeYear y + (if isLeapYear y then 366 else 365)"
proof -
  have a: "y div 4 = (y - 1) div 4 + (if y mod 4 = 0 then 1 else 0)"
    by (rule div_pred) simp
  have b: "y div 100 = (y - 1) div 100 + (if y mod 100 = 0 then 1 else 0)"
    by (rule div_pred) simp
  have c: "y div 400 = (y - 1) div 400 + (if y mod 400 = 0 then 1 else 0)"
    by (rule div_pred) simp
  have d: "y mod 400 = 0 \<Longrightarrow> y mod 100 = 0"
    by (rule mod_0_trans [of 100 400]) simp_all
  have e: "y mod 100 = 0 \<Longrightarrow> y mod 4 = 0"
    by (rule mod_0_trans [of 4 100]) simp_all
  define A where "A = y div 4 - (y - 1) div 4"
  define B where "B = y div 100 - (y - 1) div 100"
  define C where "C = y div 400 - (y - 1) div 400"
  have A: "A = (if y mod 4 = 0 then 1 else 0)" using a by (simp add: A_def)
  have B: "B = (if y mod 100 = 0 then 1 else 0)" using b by (simp add: B_def)
  have C: "C = (if y mod 400 = 0 then 1 else 0)" using c by (simp add: C_def)
  have step: "daysBeforeYear (y + 1) = daysBeforeYear y + 365 + (A - B + C)"
    by (simp add: daysBeforeYear_def A_def B_def C_def)
  have "A - B + C = (if isLeapYear y then 1 else 0)"
  proof (cases "y mod 400 = 0")
    case True
    with d e show ?thesis by (simp add: A B C isLeapYear_def)
  next
    case n400: False
    show ?thesis
    proof (cases "y mod 100 = 0")
      case True
      with n400 e show ?thesis by (simp add: A B C isLeapYear_def)
    next
      case False
      with n400 show ?thesis by (simp add: A B C isLeapYear_def)
    qed
  qed
  with step show ?thesis by simp
qed

lemma daysBeforeYear_mono_aux: "0 \<le> k \<Longrightarrow> daysBeforeYear y + 365 * k \<le> daysBeforeYear (y + k)"
proof (induction k rule: int_ge_induct)
  case base
  then show ?case by simp
next
  case (step i)
  have "daysBeforeYear (y + (i + 1)) = daysBeforeYear ((y + i) + 1)" by (simp add: add.assoc)
  also have "\<dots> \<ge> daysBeforeYear (y + i) + 365" by (simp add: daysBeforeYear_next)
  finally show ?case using step by simp
qed

lemma daysBeforeYear_less: "y < z \<Longrightarrow> daysBeforeYear y < daysBeforeYear z"
  using daysBeforeYear_mono_aux [of "z - y" y] by simp

lemma daysBeforeYear_le: "y \<le> z \<Longrightarrow> daysBeforeYear y \<le> daysBeforeYear z"
  using daysBeforeYear_less [of y z] by (cases "y = z") simp_all

lemma daysBeforeYear_bounds_aux:
  fixes y q4 q100 q400 :: int
  assumes "4 * q4 \<le> y - 1" "y - 1 < 4 * q4 + 4"
    "100 * q100 \<le> y - 1" "y - 1 < 100 * q100 + 100"
    "400 * q400 \<le> y - 1" "y - 1 < 400 * q400 + 400"
  shows "146097 * y - 287811690 \<le> 400 * (365 * (y - 1970) + (q4 - q100 + q400) - 477)"
    and "400 * (365 * (y - 1970) + (q4 - q100 + q400) - 477) \<le> 146097 * y - 287810490"
  using assms by (simp_all add: algebra_simps)

lemma daysBeforeYear_bounds:
  "146097 * y - 287811690 \<le> 400 * daysBeforeYear y"
  "400 * daysBeforeYear y \<le> 146097 * y - 287810490"
proof -
  have a: "4 * ((y - 1) div 4) \<le> y - 1" "y - 1 < 4 * ((y - 1) div 4) + 4"
    using div_bounds [of 4 "y - 1"] by simp_all
  have b: "100 * ((y - 1) div 100) \<le> y - 1" "y - 1 < 100 * ((y - 1) div 100) + 100"
    using div_bounds [of 100 "y - 1"] by simp_all
  have c: "400 * ((y - 1) div 400) \<le> y - 1" "y - 1 < 400 * ((y - 1) div 400) + 400"
    using div_bounds [of 400 "y - 1"] by simp_all
  show "146097 * y - 287811690 \<le> 400 * daysBeforeYear y"
    unfolding daysBeforeYear_def by (rule daysBeforeYear_bounds_aux(1) [OF a b c])
  show "400 * daysBeforeYear y \<le> 146097 * y - 287810490"
    unfolding daysBeforeYear_def by (rule daysBeforeYear_bounds_aux(2) [OF a b c])
qed

lemma yearOfDay_bounds:
  "daysBeforeYear (yearOfDay n) \<le> n" "n < daysBeforeYear (yearOfDay n + 1)"
proof -
  define q where "q = (400 * n) div 146097"
  have q: "146097 * q \<le> 400 * n" "400 * n < 146097 * q + 146097"
    using div_bounds [of 146097 "400 * n"] by (simp_all add: q_def)
  have "400 * daysBeforeYear (1969 + q) \<le> 146097 * (1969 + q) - 287810490"
    by (rule daysBeforeYear_bounds(2))
  with q(1) have "400 * daysBeforeYear (1969 + q) \<le> 400 * n"
    by (simp add: algebra_simps)
  then have lo: "daysBeforeYear (1969 + q) \<le> n" by simp
  have "146097 * (1972 + q) - 287811690 \<le> 400 * daysBeforeYear (1972 + q)"
    by (rule daysBeforeYear_bounds(1))
  with q(2) have "400 * n < 400 * daysBeforeYear (1972 + q)"
    by (simp add: algebra_simps)
  then have hi: "n < daysBeforeYear (1972 + q)" by simp
  have yd: "yearOfDay n = (if daysBeforeYear (1971 + q) \<le> n then 1971 + q
      else if n < daysBeforeYear (1970 + q) then 1969 + q else 1970 + q)"
    by (simp add: yearOfDay_def q_def Let_def)
  show "daysBeforeYear (yearOfDay n) \<le> n"
    using lo by (simp add: yd)
  show "n < daysBeforeYear (yearOfDay n + 1)"
    using hi by (simp add: yd)
qed

lemma yearOfDay_unique:
  assumes "daysBeforeYear y \<le> n" and "n < daysBeforeYear (y + 1)"
  shows "yearOfDay n = y"
proof (rule ccontr)
  assume ne: "yearOfDay n \<noteq> y"
  show False
  proof (cases "yearOfDay n < y")
    case True
    then have "daysBeforeYear (yearOfDay n + 1) \<le> daysBeforeYear y"
      by (intro daysBeforeYear_le) simp
    with yearOfDay_bounds(2) [of n] assms(1) show False by linarith
  next
    case False
    with ne have "y + 1 \<le> yearOfDay n" by simp
    then have "daysBeforeYear (y + 1) \<le> daysBeforeYear (yearOfDay n)"
      by (rule daysBeforeYear_le)
    with yearOfDay_bounds(1) [of n] assms(2) show False by linarith
  qed
qed

lemma getFullYear_in_year:
  assumes "daysBeforeYear y \<le> dayNumber t" and "dayNumber t < daysBeforeYear (y + 1)"
  shows "getFullYear t = y"
  unfolding getFullYear_def using assms by (rule yearOfDay_unique)

lemma dayOfYear_bounds:
  "0 \<le> dayOfYear t"
  "dayOfYear t < (if isLeapYear (getFullYear t) then 366 else 365)"
proof -
  show "0 \<le> dayOfYear t"
    using yearOfDay_bounds(1) [of "dayNumber t"] by (simp add: dayOfYear_def getFullYear_def)
  have "dayNumber t < daysBeforeYear (getFullYear t + 1)"
    using yearOfDay_bounds(2) [of "dayNumber t"] by (simp add: getFullYear_def)
  then show "dayOfYear t < (if isLeapYear (getFullYear t) then 366 else 365)"
    unfolding dayOfYear_def daysBeforeYear_next by (simp split: if_splits)
qed

lemma month_cases:
  fixes m :: int
  assumes "0 \<le> m" and "m \<le> 11"
  obtains "m = 0" | "m = 1" | "m = 2" | "m = 3" | "m = 4" | "m = 5"
    | "m = 6" | "m = 7" | "m = 8" | "m = 9" | "m = 10" | "m = 11"
proof -
  have "m = 0 \<or> m = 1 \<or> m = 2 \<or> m = 3 \<or> m = 4 \<or> m = 5
    \<or> m = 6 \<or> m = 7 \<or> m = 8 \<or> m = 9 \<or> m = 10 \<or> m = 11"
    using assms by arith
  then show ?thesis using that by blast
qed

lemma getMonth_range: "0 \<le> getMonth t" "getMonth t \<le> 11"
  by (simp_all add: getMonth_def Let_def)

lemma monthLookup_char:
  fixes y d :: int
  assumes "0 \<le> d" and "d < (if isLeapYear y then 366 else 365)"
  shows "daysBeforeMonth y (if d < daysBeforeMonth y 1 then 0 else if d < daysBeforeMonth y 2 then 1
      else if d < daysBeforeMonth y 3 then 2 else if d < daysBeforeMonth y 4 then 3
      else if d < daysBeforeMonth y 5 then 4 else if d < daysBeforeMonth y 6 then 5
      else if d < daysBeforeMonth y 7 then 6 else if d < daysBeforeMonth y 8 then 7
      else if d < daysBeforeMonth y 9 then 8 else if d < daysBeforeMonth y 10 then 9
      else if d < daysBeforeMonth y 11 then 10 else 11) \<le> d
      \<and> d < daysBeforeMonth y (if d < daysBeforeMonth y 1 then 0 else if d < daysBeforeMonth y 2 then 1
      else if d < daysBeforeMonth y 3 then 2 else if d < daysBeforeMonth y 4 then 3
      else if d < daysBeforeMonth y 5 then 4 else if d < daysBeforeMonth y 6 then 5
      else if d < daysBeforeMonth y 7 then 6 else if d < daysBeforeMonth y 8 then 7
      else if d < daysBeforeMonth y 9 then 8 else if d < daysBeforeMonth y 10 then 9
      else if d < daysBeforeMonth y 11 then 10 else 11) + daysInMonth y (if d < daysBeforeMonth y 1 then 0 else if d < daysBeforeMonth y 2 then 1
      else if d < daysBeforeMonth y 3 then 2 else if d < daysBeforeMonth y 4 then 3
      else if d < daysBeforeMonth y 5 then 4 else if d < daysBeforeMonth y 6 then 5
      else if d < daysBeforeMonth y 7 then 6 else if d < daysBeforeMonth y 8 then 7
      else if d < daysBeforeMonth y 9 then 8 else if d < daysBeforeMonth y 10 then 9
      else if d < daysBeforeMonth y 11 then 10 else 11)"
  using assms by (cases "isLeapYear y") (simp_all add: daysBeforeMonth_def daysInMonth_def)

lemma getMonth_char:
  "daysBeforeMonth (getFullYear t) (getMonth t) \<le> dayOfYear t
   \<and> dayOfYear t < daysBeforeMonth (getFullYear t) (getMonth t)
        + daysInMonth (getFullYear t) (getMonth t)"
  unfolding getMonth_def Let_def
  by (rule monthLookup_char) (rule dayOfYear_bounds)+

lemma getDate_range:
  "1 \<le> getDate t" "getDate t \<le> daysInMonth (getFullYear t) (getMonth t)"
  using getMonth_char [of t] by (simp_all add: getDate_def)

lemma monthLookup_unique:
  fixes y d m :: int
  assumes "0 \<le> m" and "m \<le> 11"
    and "daysBeforeMonth y m \<le> d"
    and "d < daysBeforeMonth y m + daysInMonth y m"
  shows "(if d < daysBeforeMonth y 1 then 0 else if d < daysBeforeMonth y 2 then 1
      else if d < daysBeforeMonth y 3 then 2 else if d < daysBeforeMonth y 4 then 3
      else if d < daysBeforeMonth y 5 then 4 else if d < daysBeforeMonth y 6 then 5
      else if d < daysBeforeMonth y 7 then 6 else if d < daysBeforeMonth y 8 then 7
      else if d < daysBeforeMonth y 9 then 8 else if d < daysBeforeMonth y 10 then 9
      else if d < daysBeforeMonth y 11 then 10 else 11) = m"
  using assms(1,2)
proof (cases m rule: month_cases)
    case 1 then show ?thesis using assms(3,4) by (simp add: daysBeforeMonth_def daysInMonth_def)
  next
    case 2 then show ?thesis using assms(3,4) by (simp add: daysBeforeMonth_def daysInMonth_def split: if_splits)
  next
    case 3 then show ?thesis using assms(3,4) by (simp add: daysBeforeMonth_def daysInMonth_def split: if_splits)
  next
    case 4 then show ?thesis using assms(3,4) by (simp add: daysBeforeMonth_def daysInMonth_def split: if_splits)
  next
    case 5 then show ?thesis using assms(3,4) by (simp add: daysBeforeMonth_def daysInMonth_def split: if_splits)
  next
    case 6 then show ?thesis using assms(3,4) by (simp add: daysBeforeMonth_def daysInMonth_def split: if_splits)
  next
    case 7 then show ?thesis using assms(3,4) by (simp add: daysBeforeMonth_def daysInMonth_def split: if_splits)
  next
    case 8 then show ?thesis using assms(3,4) by (simp add: daysBeforeMonth_def daysInMonth_def split: if_splits)
  next
    case 9 then show ?thesis using assms(3,4) by (simp add: daysBeforeMonth_def daysInMonth_def split: if_splits)
  next
    case 10 then show ?thesis using assms(3,4) by (simp add: daysBeforeMonth_def daysInMonth_def split: if_splits)
  next
    case 11 then show ?thesis using assms(3,4) by (simp add: daysBeforeMonth_def daysInMonth_def split: if_splits)
  next
    case 12 then show ?thesis using assms(3,4) by (simp add: daysBeforeMonth_def daysInMonth_def split: if_splits)
qed

lemma getMonth_unique:
  assumes "0 \<le> m" and "m \<le> 11"
    and "daysBeforeMonth (getFullYear t) m \<le> dayOfYear t"
    and "dayOfYear t < daysBeforeMonth (getFullYear t) m + daysInMonth (getFullYear t) m"
  shows "getMonth t = m"
  unfolding getMonth_def Let_def using assms by (rule monthLookup_unique)

lemma date_decompose:
  "t = dayNumber t * msPerDay + timeWithinDay t"
  "0 \<le> timeWithinDay t" "timeWithinDay t < msPerDay"
  by (simp_all add: dayNumber_def timeWithinDay_def msPerDay_def)

lemma dayNumber_compose:
  assumes "0 \<le> r" and "r < msPerDay"
  shows "dayNumber (n * msPerDay + r) = n" and "timeWithinDay (n * msPerDay + r) = r"
proof -
  show dn: "dayNumber (n * msPerDay + r) = n"
    unfolding dayNumber_def
    by (rule div_unique_int) (use assms in \<open>simp_all add: msPerDay_def\<close>)
  have "timeWithinDay (n * msPerDay + r) = (n * msPerDay + r) - dayNumber (n * msPerDay + r) * msPerDay"
    using date_decompose(1) [of "n * msPerDay + r"] by linarith
  then show "timeWithinDay (n * msPerDay + r) = r"
    by (simp add: dn)
qed

lemma dayNumber_less_imp_less:
  assumes "dayNumber a < dayNumber b"
  shows "a < b"
proof -
  have "a < (dayNumber a + 1) * msPerDay"
    using date_decompose [of a] by (simp add: algebra_simps)
  also have "\<dots> \<le> dayNumber b * msPerDay"
    using assms by (simp add: msPerDay_def)
  also have "\<dots> \<le> b"
    using date_decompose [of b] by linarith
  finally show ?thesis .
qed

lemma daysBeforeMonth_nonneg: "0 \<le> daysBeforeMonth y m"
  by (simp add: daysBeforeMonth_def)

lemma daysInMonth_ge: "28 \<le> daysInMonth y m"
  by (simp add: daysInMonth_def)

lemma daysBeforeMonth_next:
  assumes "0 \<le> m" and "m \<le> 10"
  shows "daysBeforeMonth y (m + 1) = daysBeforeMonth y m + daysInMonth y m"
proof -
  have "m = 0 \<or> m = 1 \<or> m = 2 \<or> m = 3 \<or> m = 4 \<or> m = 5
    \<or> m = 6 \<or> m = 7 \<or> m = 8 \<or> m = 9 \<or> m = 10"
    using assms by arith
  then show ?thesis
    by (elim disjE) (simp_all add: daysBeforeMonth_def daysInMonth_def)
qed

lemma daysBeforeMonth_last:
  "daysBeforeMonth y 11 + daysInMonth y 11 = (if isLeapYear y then 366 else 365)"
  by (simp add: daysBeforeMonth_def daysInMonth_def)

lemma month_end_in_year:
  assumes "0 \<le> m" and "m \<le> 11"
  shows "daysBeforeMonth y m + daysInMonth y m \<le> (if isLeapYear y then 366 else 365)"
  using assms
  by (cases m rule: month_cases) (simp_all add: daysBeforeMonth_def daysInMonth_def)

lemma civil_of_makeDate:
  assumes m: "0 \<le> m" "m \<le> 11" and d: "1 \<le> d" "d \<le> daysInMonth y m"
    and r: "0 \<le> r" "r < msPerDay"
  shows "getFullYear (makeDate y m d + r) = y"
    and "getMonth (makeDate y m d + r) = m"
    and "getDate (makeDate y m d + r) = d"
    and "timeWithinDay (makeDate y m d + r) = r"
    and "dayNumber (makeDate y m d + r) = daysBeforeYear y + daysBeforeMonth y m + (d - 1)"
proof -
  let ?t = "makeDate y m d + r"
  show dn: "dayNumber ?t = daysBeforeYear y + daysBeforeMonth y m + (d - 1)"
    unfolding makeDate_def by (rule dayNumber_compose(1) [OF r])
  show "timeWithinDay ?t = r"
    unfolding makeDate_def by (rule dayNumber_compose(2) [OF r])
  have "daysBeforeMonth y m + (d - 1) < (if isLeapYear y then 366 else 365)"
    using month_end_in_year [OF m, of y] d by linarith
  then have "dayNumber ?t < daysBeforeYear (y + 1)"
    unfolding dn daysBeforeYear_next by linarith
  moreover have "daysBeforeYear y \<le> dayNumber ?t"
    unfolding dn using daysBeforeMonth_nonneg [of y m] d by linarith
  ultimately show y: "getFullYear ?t = y"
    by (intro getFullYear_in_year)
  have doy: "dayOfYear ?t = daysBeforeMonth y m + (d - 1)"
    by (simp add: dayOfYear_def y dn)
  show mo: "getMonth ?t = m"
    by (rule getMonth_unique [OF m]) (use d in \<open>simp_all add: y doy\<close>)
  show "getDate ?t = d"
    by (simp add: getDate_def y mo doy)
qed

lemma div_mod_12:
  fixes y m :: int
  assumes "0 \<le> m" and "m \<le> 11"
  shows "(y * 12 + m) div 12 = y" and "(y * 12 + m) mod 12 = m"
proof -
  show a: "(y * 12 + m) div 12 = y"
    by (rule div_unique_int) (use assms in simp_all)
  have "(y * 12 + m) mod 12 = (y * 12 + m) - 12 * ((y * 12 + m) div 12)"
    by (simp add: minus_mult_div_eq_mod)
  then show "(y * 12 + m) mod 12 = m" by (simp add: a)
qed

lemma monthIndex_div_mod:
  "monthIndex t div 12 = getFullYear t" "monthIndex t mod 12 = getMonth t"
  unfolding monthIndex_def by (rule div_mod_12; rule getMonth_range)+

lemma monthIndex_addMonths: "monthIndex (addMonths t n) = monthIndex t + n"
proof (cases "n = 0")
  case True
  then show ?thesis by (simp add: addMonths_def)
next
  case False
  define k where "k = monthIndex t + n"
  define y where "y = k div 12"
  define m where "m = k mod 12"
  define d where "d = min (getDate t) (daysInMonth y m)"
  have m: "0 \<le> m" "m \<le> 11" by (simp_all add: m_def)
  have d: "1 \<le> d" "d \<le> daysInMonth y m"
    using getDate_range(1) [of t] daysInMonth_ge [of y m] by (simp_all add: d_def)
  have am: "addMonths t n = makeDate y m d + timeWithinDay t"
    using False by (simp add: addMonths_def Let_def k_def y_def m_def d_def monthIndex_def)
  have "getFullYear (addMonths t n) = y" "getMonth (addMonths t n) = m"
    unfolding am by (rule civil_of_makeDate [OF m d date_decompose(2,3)])+
  then have "monthIndex (addMonths t n) = y * 12 + m"
    by (simp add: monthIndex_def)
  also have "\<dots> = k" by (simp add: y_def m_def)
  finally show ?thesis by (simp add: k_def)
qed

lemma timeWithinDay_addMonths: "timeWithinDay (addMonths t n) = timeWithinDay t"
proof (cases "n = 0")
  case True
  then show ?thesis by (simp add: addMonths_def)
next
  case False
  define k where "k = monthIndex t + n"
  define y where "y = k div 12"
  define m where "m = k mod 12"
  define d where "d = min (getDate t) (daysInMonth y m)"
  have m: "0 \<le> m" "m \<le> 11" by (simp_all add: m_def)
  have d: "1 \<le> d" "d \<le> daysInMonth y m"
    using getDate_range(1) [of t] daysInMonth_ge [of y m] by (simp_all add: d_def)
  have am: "addMonths t n = makeDate y m d + timeWithinDay t"
    using False by (simp add: addMonths_def Let_def k_def y_def m_def d_def monthIndex_def)
  show ?thesis
    unfolding am by (rule civil_of_makeDate [OF m d date_decompose(2,3)])
qed

lemma isSameMonth_monthIndex: "isSameMonth a b = (monthIndex a = monthIndex b)"
proof
  assume "isSameMonth a b"
  then show "monthIndex a = monthIndex b" by (simp add: isSameMonth_def monthIndex_def)
next
  assume "monthIndex a = monthIndex b"
  then have "monthIndex a div 12 = monthIndex b div 12" "monthIndex a mod 12 = monthIndex b mod 12"
    by simp_all
  then show "isSameMonth a b" by (simp add: monthIndex_div_mod isSameMonth_def)
qed

lemma monthStartDay_next:
  "monthStartDay (k + 1) = monthStartDay k + daysInMonth (k div 12) (k mod 12)"
proof -
  define y where "y = k div 12"
  define m where "m = k mod 12"
  have k: "k = y * 12 + m" by (simp add: y_def m_def)
  have m: "0 \<le> m" "m \<le> 11" by (simp_all add: m_def)
  show ?thesis
  proof (cases "m = 11")
    case True
    have "k + 1 = (y + 1) * 12 + 0" using k True by simp
    then have "(k + 1) div 12 = y + 1" "(k + 1) mod 12 = 0"
      using div_mod_12 [of 0 "y + 1"] by simp_all
    then have "monthStartDay (k + 1) = daysBeforeYear (y + 1)"
      by (simp add: monthStartDay_def daysBeforeMonth_def)
    also have "\<dots> = daysBeforeYear y + (daysBeforeMonth y 11 + daysInMonth y 11)"
      unfolding daysBeforeMonth_last by (rule daysBeforeYear_next)
    finally show ?thesis
      using True by (simp add: monthStartDay_def y_def [symmetric] m_def [symmetric])
  next
    case False
    with m have m1: "0 \<le> m + 1" "m + 1 \<le> 11" "m \<le> 10" by simp_all
    have ke: "k + 1 = y * 12 + (m + 1)" using k by simp
    have "(k + 1) div 12 = y" "(k + 1) mod 12 = m + 1"
      unfolding ke by (rule div_mod_12 [OF m1(1,2)])+
    then have "monthStartDay (k + 1) = daysBeforeYear y + daysBeforeMonth y (m + 1)"
      by (simp add: monthStartDay_def)
    also have "\<dots> = daysBeforeYear y + (daysBeforeMonth y m + daysInMonth y m)"
      using daysBeforeMonth_next [OF m(1) m1(3), of y] by simp
    finally show ?thesis
      by (simp add: monthStartDay_def y_def [symmetric] m_def [symmetric])
  qed
qed

lemma monthStartDay_mono_aux: "0 \<le> j \<Longrightarrow> monthStartDay k + 28 * j \<le> monthStartDay (k + j)"
proof (induction j rule: int_ge_induct)
  case base
  then show ?case by simp
next
  case (step i)
  have "monthStartDay (k + (i + 1)) = monthStartDay ((k + i) + 1)" by (simp add: add.assoc)
  also have "\<dots> \<ge> monthStartDay (k + i) + 28"
    unfolding monthStartDay_next using daysInMonth_ge [of "(k + i) div 12" "(k + i) mod 12"] by simp
  finally show ?case using step by simp
qed

lemma monthStartDay_le: "k \<le> l \<Longrightarrow> monthStartDay k \<le> monthStartDay l"
  using monthStartDay_mono_aux [of "l - k" k] by simp

lemma monthStartDay_bounds:
  "monthStartDay (monthIndex t) \<le> dayNumber t"
  "dayNumber t < monthStartDay (monthIndex t + 1)"
proof -
  have c: "daysBeforeMonth (getFullYear t) (getMonth t) \<le> dayOfYear t"
    "dayOfYear t < daysBeforeMonth (getFullYear t) (getMonth t)
        + daysInMonth (getFullYear t) (getMonth t)"
    using getMonth_char [of t] by simp_all
  show "monthStartDay (monthIndex t) \<le> dayNumber t"
    using c(1) by (simp add: monthStartDay_def monthIndex_div_mod dayOfYear_def)
  show "dayNumber t < monthStartDay (monthIndex t + 1)"
    unfolding monthStartDay_next
    using c(2) by (simp add: monthStartDay_def monthIndex_div_mod dayOfYear_def)
qed

lemma monthIndex_less_imp_less:
  assumes "monthIndex a < monthIndex b"
  shows "a < b"
proof -
  have "dayNumber a < monthStartDay (monthIndex a + 1)"
    by (rule monthStartDay_bounds(2))
  also have "\<dots> \<le> monthStartDay (monthIndex b)"
    using assms by (intro monthStartDay_le) simp
  also have "\<dots> \<le> dayNumber b"
    by (rule monthStartDay_bounds(1))
  finally show ?thesis by (rule dayNumber_less_imp_less)
qed

lemma getFullYear_year_start: "getFullYear (makeDate y 0 1) = y"
  using civil_of_makeDate(1) [of 0 1 y 0] by (simp add: daysInMonth_def msPerDay_def)

lemma makeDate_year_start: "makeDate y 0 1 = daysBeforeYear y * msPerDay"
  by (simp add: makeDate_def daysBeforeMonth_def)

lemma year_start_less: "y < z \<Longrightarrow> makeDate y 0 1 < makeDate z 0 1"
  using daysBeforeYear_less [of y z] by (simp add: makeDate_year_start msPerDay_def)

section \<open>Rounding to double precision\<close>

lemma roundHalfEven_of_int: "roundHalfEven (of_int n) = n"
  by (simp add: roundHalfEven_def)

lemma roundHalfEven_lower: "z - 1 / 2 \<le> of_int (roundHalfEven z)"
  unfolding roundHalfEven_def Let_def by (simp; linarith)

lemma roundHalfEven_upper: "of_int (roundHalfEven z) \<le> z + 1 / 2"
  unfolding roundHalfEven_def Let_def by (simp; linarith)

lemma roundHalfEven_nonneg: "0 \<le> z \<Longrightarrow> 0 \<le> roundHalfEven z"
  unfolding roundHalfEven_def Let_def by (simp; linarith)

lemma roundHalfEven_small: "0 \<le> z \<Longrightarrow> z < 1 / 2 \<Longrightarrow> roundHalfEven z = 0"
proof -
  assume a: "0 \<le> z" "z < 1 / 2"
  then have f: "\<lfloor>z\<rfloor> = 0" by linarith
  show ?thesis using a by (simp add: roundHalfEven_def Let_def f)
qed

lemma roundHalfEven_le_double: "0 \<le> z \<Longrightarrow> of_int (roundHalfEven z) \<le> 2 * z"
proof (cases "z < 1 / 2")
  case True
  assume "0 \<le> z"
  then show ?thesis using True by (simp add: roundHalfEven_small)
next
  case False
  then show ?thesis using roundHalfEven_upper [of z] by linarith
qed

lemma roundHalfEven_ge_half: "1 \<le> z \<Longrightarrow> z / 2 \<le> of_int (roundHalfEven z)"
  using roundHalfEven_lower [of z] by linarith

lemma roundHalfEven_pos: "1 \<le> z \<Longrightarrow> 1 \<le> roundHalfEven z"
proof -
  assume "1 \<le> z"
  then have "(0::real) < of_int (roundHalfEven z)"
    using roundHalfEven_lower [of z] by linarith
  then show ?thesis by linarith
qed

lemma bitlen_pos: "0 < n \<Longrightarrow> 1 \<le> bitlen n"
  by (auto simp: bitlen_alt_def)

lemma ilog2_le:
  assumes "0 < a"
  shows "2 powi (ilog2 a) \<le> a"
proof (cases "1 \<le> a")
  case True
  then have p: "0 < \<lfloor>a\<rfloor>" by simp
  have i: "ilog2 a = bitlen \<lfloor>a\<rfloor> - 1"
    using True by (simp add: ilog2_def)
  have n: "0 \<le> bitlen \<lfloor>a\<rfloor> - 1"
    using bitlen_pos [OF p] by simp
  have "2 ^ nat (bitlen \<lfloor>a\<rfloor> - 1) \<le> \<lfloor>a\<rfloor>"
    using bitlen_bounds [OF p] by blast
  then have "real_of_int (2 ^ nat (bitlen \<lfloor>a\<rfloor> - 1)) \<le> real_of_int \<lfloor>a\<rfloor>"
    by (simp only: of_int_le_iff)
  moreover have "real_of_int (2 ^ nat (bitlen \<lfloor>a\<rfloor> - 1)) = 2 ^ nat (bitlen \<lfloor>a\<rfloor> - 1)"
    by simp
  moreover have "real_of_int \<lfloor>a\<rfloor> \<le> a" by simp
  ultimately have "(2::real) ^ nat (bitlen \<lfloor>a\<rfloor> - 1) \<le> a"
    by linarith
  then show ?thesis
    using n by (simp add: i power_int_def)
next
  case False
  define n where "n = \<lceil>1 / a\<rceil> - 1"
  have "1 < 1 / a" using False assms by simp
  then have p: "0 < n" unfolding n_def by linarith
  have i: "ilog2 a = - bitlen n"
    using False by (simp add: ilog2_def n_def)
  have b: "0 \<le> bitlen n" by (rule bitlen_nonneg)
  have "n < 2 ^ nat (bitlen n)"
    using bitlen_bounds [OF p] by blast
  then have "n + 1 \<le> 2 ^ nat (bitlen n)" by simp
  then have "real_of_int (n + 1) \<le> real_of_int (2 ^ nat (bitlen n))"
    by (simp only: of_int_le_iff)
  moreover have "1 / a \<le> real_of_int (n + 1)"
    unfolding n_def by simp
  moreover have "real_of_int (2 ^ nat (bitlen n)) = 2 ^ nat (bitlen n)"
    by simp
  ultimately have "1 / a \<le> 2 ^ nat (bitlen n)" by linarith
  then have "1 \<le> 2 ^ nat (bitlen n) * a"
    using assms by (simp add: field_simps)
  then have "1 / 2 ^ nat (bitlen n) \<le> a"
    by (simp add: field_simps)
  moreover have "(2::real) powi (- bitlen n) = 1 / 2 ^ nat (bitlen n)"
    using b by (simp add: power_int_def field_simps)
  ultimately show ?thesis by (simp only: i)
qed


lemma ulpExp_ge: "- 1074 \<le> ulpExp x"
  by (simp add: ulpExp_def)

lemma powi_mono2: "a \<le> b \<Longrightarrow> (2::real) powi a \<le> 2 powi b"
  by (rule power_int_increasing) simp_all

lemma MIN_VALUE_pos: "0 < MIN_VALUE"
  by (simp add: MIN_VALUE_def)

lemma ulp_le_abs:
  assumes "MIN_VALUE \<le> \<bar>x\<bar>"
  shows "2 powi ulpExp x \<le> \<bar>x\<bar>"
proof (cases "ilog2 \<bar>x\<bar> \<le> - 1022")
  case True
  then have "ulpExp x = - 1074" by (simp add: ulpExp_def)
  then show ?thesis using assms by (simp only: MIN_VALUE_def)
next
  case False
  have p: "0 < \<bar>x\<bar>" using assms MIN_VALUE_pos by linarith
  have "ulpExp x \<le> ilog2 \<bar>x\<bar>" using False by (simp add: ulpExp_def)
  then have "(2::real) powi ulpExp x \<le> 2 powi ilog2 \<bar>x\<bar>" by (rule powi_mono2)
  also have "\<dots> \<le> \<bar>x\<bar>" using p by (rule ilog2_le)
  finally show ?thesis .
qed

lemma roundedAbs_nonneg: "0 \<le> roundedAbs x"
proof -
  have "0 \<le> \<bar>x\<bar> / 2 powi ulpExp x" by simp
  then have "0 \<le> roundHalfEven (\<bar>x\<bar> / 2 powi ulpExp x)" by (rule roundHalfEven_nonneg)
  then show ?thesis by (simp add: roundedAbs_def)
qed

lemma roundedAbs_le: "roundedAbs x \<le> 2 * \<bar>x\<bar>"
proof -
  let ?u = "(2::real) powi ulpExp x"
  have u: "0 < ?u" by simp
  have "0 \<le> \<bar>x\<bar> / ?u" by simp
  then have "of_int (roundHalfEven (\<bar>x\<bar> / ?u)) \<le> 2 * (\<bar>x\<bar> / ?u)"
    by (rule roundHalfEven_le_double)
  then have "of_int (roundHalfEven (\<bar>x\<bar> / ?u)) * ?u \<le> 2 * (\<bar>x\<bar> / ?u) * ?u"
    using u by (simp only: mult_le_cancel_right_pos)
  also have "2 * (\<bar>x\<bar> / ?u) * ?u = 2 * \<bar>x\<bar>" using u by simp
  finally show ?thesis by (simp only: roundedAbs_def)
qed

lemma roundedAbs_ge:
  assumes "MIN_VALUE \<le> \<bar>x\<bar>"
  shows "\<bar>x\<bar> / 2 \<le> roundedAbs x"
proof -
  let ?u = "(2::real) powi ulpExp x"
  have u: "0 < ?u" by simp
  have "?u \<le> \<bar>x\<bar>" using assms by (rule ulp_le_abs)
  then have "1 \<le> \<bar>x\<bar> / ?u" using u by (simp add: field_simps)
  then have "\<bar>x\<bar> / ?u / 2 \<le> of_int (roundHalfEven (\<bar>x\<bar> / ?u))"
    by (rule roundHalfEven_ge_half)
  then have "\<bar>x\<bar> / ?u / 2 * ?u \<le> of_int (roundHalfEven (\<bar>x\<bar> / ?u)) * ?u"
    using u by (simp only: mult_le_cancel_right_pos)
  moreover have "\<bar>x\<bar> / ?u / 2 * ?u = \<bar>x\<bar> / 2" using u by simp
  ultimately show ?thesis by (simp only: roundedAbs_def)
qed

lemma roundedAbs_pos:
  assumes "MIN_VALUE \<le> \<bar>x\<bar>"
  shows "0 < roundedAbs x"
proof -
  have "0 < \<bar>x\<bar> / 2" using assms MIN_VALUE_pos by linarith
  then show ?thesis using roundedAbs_ge [OF assms] by linarith
qed

lemma powi_split: "e = int n + c \<Longrightarrow> (2::real) powi e = 2 ^ n * 2 powi c"
  by (simp add: power_int_add)

lemma roundedAbs_grid: "\<exists>k. roundedAbs x = of_int k * MIN_VALUE"
proof -
  define n where "n = nat (ulpExp x + 1074)"
  define m where "m = roundHalfEven (\<bar>x\<bar> / 2 powi ulpExp x)"
  have "ulpExp x = int n + (- 1074)"
    using ulpExp_ge [of x] by (simp add: n_def)
  then have "(2::real) powi ulpExp x = 2 ^ n * 2 powi (- 1074)"
    by (rule powi_split)
  then have "roundedAbs x = of_int m * (2 ^ n * 2 powi (- 1074))"
    by (simp only: roundedAbs_def m_def)
  also have "\<dots> = of_int (m * 2 ^ n) * 2 powi (- 1074)"
    by (simp only: of_int_mult of_int_power of_int_numeral mult.assoc)
  finally have "roundedAbs x = of_int (m * 2 ^ n) * MIN_VALUE"
    by (simp only: MIN_VALUE_def)
  then show ?thesis by blast
qed


lemma fl_not_NaN: "fl x \<noteq> NaN"
  by (simp add: fl_def)

lemma fl_grid: "fl x = Fin y \<Longrightarrow> \<exists>k. y = of_int k * MIN_VALUE"
proof -
  assume a: "fl x = Fin y"
  obtain k where k: "roundedAbs x = of_int k * MIN_VALUE"
    using roundedAbs_grid by blast
  have "y = 0 \<or> y = roundedAbs x \<or> y = - roundedAbs x"
    using a by (auto simp add: fl_def split: if_splits)
  then consider "y = 0" | "y = roundedAbs x" | "y = - roundedAbs x" by blast
  then show ?thesis
  proof cases
    case 1
    have "y = of_int 0 * MIN_VALUE" using 1 by simp
    then show ?thesis by blast
  next
    case 2
    then show ?thesis using k by blast
  next
    case 3
    then have "y = of_int (- k) * MIN_VALUE" using k by (simp only: of_int_minus mult_minus_left)
    then show ?thesis by blast
  qed
qed

lemma fl_finite:
  assumes "\<bar>x\<bar> < 2 ^ 1023"
  shows "\<exists>y. fl x = Fin y \<and> \<bar>y\<bar> \<le> 2 * \<bar>x\<bar> \<and> (0 \<le> x \<longrightarrow> 0 \<le> y) \<and> (x \<le> 0 \<longrightarrow> y \<le> 0)"
proof -
  have "roundedAbs x \<le> 2 * \<bar>x\<bar>" by (rule roundedAbs_le)
  moreover have "2 * \<bar>x\<bar> < 2 * 2 ^ 1023" using assms by linarith
  moreover have "(2::real) * 2 ^ 1023 = 2 ^ 1024" by simp
  ultimately have lt: "\<not> 2 ^ 1024 \<le> roundedAbs x" by linarith
  have u: "roundedAbs x \<le> 2 * \<bar>x\<bar>" by (rule roundedAbs_le)
  have n: "0 \<le> roundedAbs x" by (rule roundedAbs_nonneg)
  show ?thesis
  proof (cases "x = 0")
    case True
    then show ?thesis by (simp add: fl_def)
  next
    case False
    show ?thesis
    proof (cases "0 < x")
      case True
      then have "fl x = Fin (roundedAbs x)" using lt by (simp only: fl_def) simp
      then show ?thesis using u n True by simp
    next
      case neg: False
      then have "fl x = Fin (- roundedAbs x)" using lt False by (simp only: fl_def) simp
      then show ?thesis using u n neg False by simp
    qed
  qed
qed

lemma fl_lower:
  assumes "MIN_VALUE \<le> \<bar>x\<bar>" and "fl x = Fin y"
  shows "\<bar>x\<bar> / 2 \<le> \<bar>y\<bar> \<and> (0 < x \<longrightarrow> 0 < y) \<and> (x < 0 \<longrightarrow> y < 0)"
proof -
  have g: "\<bar>x\<bar> / 2 \<le> roundedAbs x" using assms(1) by (rule roundedAbs_ge)
  have p: "0 < roundedAbs x" using assms(1) by (rule roundedAbs_pos)
  have x: "x \<noteq> 0"
    using assms(1) MIN_VALUE_pos by auto
  show ?thesis
  proof (cases "0 < x")
    case True
    then have "y = roundedAbs x" using assms(2) x by (simp add: fl_def split: if_splits)
    then show ?thesis using g p True by simp
  next
    case False
    then have "y = - roundedAbs x" using assms(2) x by (simp add: fl_def split: if_splits)
    then show ?thesis using g p False x by simp
  qed
qed


lemma fl_nonpos: "x \<le> 0 \<Longrightarrow> \<not> js_gt (fl x) (Fin 0)"
proof -
  assume nx: "x \<le> 0"
  have n: "0 \<le> roundedAbs x" by (rule roundedAbs_nonneg)
  have "fl x = Fin 0 \<or> fl x = NegInf \<or> fl x = Fin (- roundedAbs x)"
    using nx by (simp add: fl_def)
  then show ?thesis using n by auto
qed

lemma ilog2_nonneg: "1 \<le> a \<Longrightarrow> 0 \<le> ilog2 a"
proof -
  assume a: "1 \<le> a"
  then have "0 < \<lfloor>a\<rfloor>" by simp
  then have "1 \<le> bitlen \<lfloor>a\<rfloor>" by (rule bitlen_pos)
  then show ?thesis using a by (simp add: ilog2_def)
qed

lemma fl_whole:
  assumes w: "of_int \<lfloor>x\<rfloor> = x" and b: "\<bar>x\<bar> < 2 ^ 53"
  shows "fl x = Fin x"
proof (cases "x = 0")
  case True
  then show ?thesis by (simp add: fl_def)
next
  case False
  define a where "a = \<bar>x\<bar>"
  define j where "j = \<bar>\<lfloor>x\<rfloor>\<bar>"
  have aj: "a = of_int j" using w unfolding a_def j_def by (metis of_int_abs)
  have "j \<noteq> 0" using False aj a_def by auto
  then have "1 \<le> j" unfolding j_def by linarith
  then have a1: "1 \<le> a" using aj by simp
  have i0: "0 \<le> ilog2 a" using a1 by (rule ilog2_nonneg)
  have "2 powi ilog2 a \<le> a" using a1 by (intro ilog2_le) linarith
  then have lt: "(2::real) powi ilog2 a < 2 powi 53" using b a_def by simp
  have i53: "ilog2 a < 53"
  proof (rule ccontr)
    assume "\<not> ilog2 a < 53"
    then have "53 \<le> ilog2 a" by simp
    then have "(2::real) powi 53 \<le> 2 powi ilog2 a" by (rule powi_mono2)
    then show False using lt by linarith
  qed
  define n where "n = nat (52 - ilog2 a)"
  have e: "ulpExp x = - int n"
    using i0 i53 by (simp add: ulpExp_def n_def a_def)
  have u: "(2::real) powi ulpExp x = 1 / 2 ^ n"
    by (simp add: e power_int_def field_simps)
  have "a / 2 powi ulpExp x = of_int (j * 2 ^ n)"
    by (simp add: u aj)
  then have "roundHalfEven (a / 2 powi ulpExp x) = j * 2 ^ n"
    by (simp only: roundHalfEven_of_int)
  then have "roundedAbs x = of_int (j * 2 ^ n) * (1 / 2 ^ n)"
    by (simp only: roundedAbs_def u) (simp add: a_def)
  then have r: "roundedAbs x = a" by (simp add: aj)
  have "a < 2 ^ 1024" using b a_def by simp
  then show ?thesis using False r by (auto simp add: fl_def a_def)
qed


text \<open>A number with at most 53 significant bits is not rounded.\<close>

lemma roundedAbs_exact:
  assumes x: "x = of_int k * 2 powi j" and k: "\<bar>k\<bar> < 2 ^ 53" and j: "- 1074 \<le> j"
  shows "roundedAbs x = \<bar>x\<bar>"
proof (cases "k = 0")
  case True
  then have "x = 0" using x by simp
  then show ?thesis using roundHalfEven_of_int [of 0] by (simp add: roundedAbs_def)
next
  case False
  define a where "a = \<bar>x\<bar>"
  define u :: real where "u = 2 powi j"
  have u: "0 < u" by (simp add: u_def)
  have ak: "a = of_int \<bar>k\<bar> * u"
    using u by (simp add: a_def x u_def abs_mult)
  have "1 \<le> \<bar>k\<bar>" using False by linarith
  then have "(1::real) \<le> of_int \<bar>k\<bar>" by (simp only: of_int_1_le_iff)
  then have "1 * u \<le> of_int \<bar>k\<bar> * u" using u by (simp only: mult_le_cancel_right_pos)
  then have ap: "0 < a" using u ak by simp
  have "real_of_int \<bar>k\<bar> < real_of_int (2 ^ 53)" using k by (simp only: of_int_less_iff)
  then have "real_of_int \<bar>k\<bar> < 2 powi 53" by simp
  then have "real_of_int \<bar>k\<bar> * u < 2 powi 53 * u" using u by (simp only: mult_less_cancel_right_pos)
  moreover have "(2 powi 53 :: real) * u = 2 powi (53 + j)"
    unfolding u_def by (rule power_int_add [symmetric]) simp
  ultimately have lt: "a < 2 powi (53 + j)" using ak by simp
  have le: "2 powi ilog2 a \<le> a" using ap by (rule ilog2_le)
  have i: "ilog2 a < 53 + j"
  proof (rule ccontr)
    assume "\<not> ilog2 a < 53 + j"
    then have "53 + j \<le> ilog2 a" by simp
    then have "(2::real) powi (53 + j) \<le> 2 powi ilog2 a" by (rule powi_mono2)
    then show False using lt le by linarith
  qed
  have e: "ulpExp x \<le> j"
    using i j by (simp add: ulpExp_def a_def)
  define n where "n = nat (j - ulpExp x)"
  have "j = int n + ulpExp x" using e by (simp add: n_def)
  then have "(2::real) powi j = 2 ^ n * 2 powi ulpExp x" by (rule powi_split)
  then have an: "a = of_int (\<bar>k\<bar> * 2 ^ n) * 2 powi ulpExp x"
    by (simp add: ak u_def)
  then have "a / 2 powi ulpExp x = of_int (\<bar>k\<bar> * 2 ^ n)" by simp
  then have "roundHalfEven (a / 2 powi ulpExp x) = \<bar>k\<bar> * 2 ^ n"
    by (simp only: roundHalfEven_of_int)
  then have "roundedAbs x = of_int (\<bar>k\<bar> * 2 ^ n) * 2 powi ulpExp x"
    by (simp only: roundedAbs_def a_def)
  then show ?thesis using an by (simp only: a_def)
qed

lemma fl_exact:
  assumes "x = of_int k * 2 powi j" and "\<bar>k\<bar> < 2 ^ 53" and "- 1074 \<le> j" and "\<bar>x\<bar> < 2 ^ 1024"
  shows "fl x = Fin x"
proof -
  have "roundedAbs x = \<bar>x\<bar>" using assms(1,2,3) by (rule roundedAbs_exact)
  then show ?thesis using assms(4) by (auto simp add: fl_def)
qed

lemma fl_overflow_exact:
  assumes "x = of_int k * 2 powi j" and "\<bar>k\<bar> < 2 ^ 53" and "- 1074 \<le> j" and "2 ^ 1024 \<le> x"
  shows "fl x = PosInf"
proof -
  have "roundedAbs x = \<bar>x\<bar>" using assms(1,2,3) by (rule roundedAbs_exact)
  moreover have "(0::real) < 2 ^ 1024" by simp
  ultimately show ?thesis using assms(4) by (simp add: fl_def)
qed

text \<open>Beyond \<open>2 ^ 1025\<close> every number rounds to an infinity.\<close>

lemma fl_overflow:
  assumes "2 ^ 1025 \<le> x"
  shows "fl x = PosInf"
proof -
  have p: "(0::real) < 2 ^ 1025" by simp
  have "MIN_VALUE \<le> (2 ^ 1025 :: real)" by (simp add: MIN_VALUE_def)
  then have "MIN_VALUE \<le> \<bar>x\<bar>" using assms by linarith
  then have "\<bar>x\<bar> / 2 \<le> roundedAbs x" by (rule roundedAbs_ge)
  moreover have "(2 ^ 1025 :: real) / 2 = 2 ^ 1024" by simp
  ultimately have "2 ^ 1024 \<le> roundedAbs x" using assms by linarith
  then show ?thesis using assms p by (simp add: fl_def)
qed

lemma fl_pos_cases:
  assumes "MIN_VALUE \<le> x"
  shows "fl x = PosInf \<or> (\<exists>y. fl x = Fin y \<and> x / 2 \<le> y)"
proof -
  have p: "0 < x" using assms MIN_VALUE_pos by linarith
  then have "MIN_VALUE \<le> \<bar>x\<bar>" using assms by simp
  then have "\<bar>x\<bar> / 2 \<le> roundedAbs x" by (rule roundedAbs_ge)
  then have "x / 2 \<le> roundedAbs x" using p by simp
  then show ?thesis using p by (simp add: fl_def)
qed

section \<open>Numbers the route computes\<close>

lemma onGrid_Fin: "onGrid (Fin a) \<longleftrightarrow> (\<exists>k. a = of_int k * MIN_VALUE)"
proof
  assume "onGrid (Fin a)"
  then have "a = of_int \<lfloor>a / MIN_VALUE\<rfloor> * MIN_VALUE" by (simp add: onGrid_def)
  then show "\<exists>k. a = of_int k * MIN_VALUE" by blast
next
  assume "\<exists>k. a = of_int k * MIN_VALUE"
  then obtain k where k: "a = of_int k * MIN_VALUE" by blast
  have "a / MIN_VALUE = of_int k" using MIN_VALUE_pos by (simp add: k)
  then show "onGrid (Fin a)" by (simp add: onGrid_def k)
qed


lemma onGrid_zero: "onGrid (Fin 0)"
  by (simp add: onGrid_def)

lemma onGrid_fl: "onGrid (fl x)"
proof (cases "fl x")
  case (Fin y)
  then show ?thesis using fl_grid [of x y] by (simp add: onGrid_Fin)
next
  case NaN
  then show ?thesis using fl_not_NaN by blast
qed (simp_all add: onGrid_def)

lemma onGrid_js_add: "onGrid u \<Longrightarrow> onGrid (js_add u (Fin x))"
proof (cases u)
  case (Fin a)
  then show ?thesis by (simp add: onGrid_fl)
next
  case NaN
  assume "onGrid u"
  then show ?thesis using NaN by (simp add: onGrid_def)
qed (simp_all add: onGrid_def)



lemma orZero_onGrid: "onGrid u \<Longrightarrow> orZero u = u"
  by (auto simp add: orZero_def onGrid_def)

lemma js_gt_irrefl: "\<not> js_gt v v"
  by (cases v) simp_all





text \<open>Running totals of whole numbers are exact.\<close>

lemma whole_iff: "of_int \<lfloor>x\<rfloor> = x \<longleftrightarrow> x \<in> \<int>"
  by (metis Ints_of_int of_int_floor)

lemma foldl_whole:
  assumes "a \<in> \<int>" and "\<forall>x \<in> set xs. x \<in> \<int>" and "\<bar>a\<bar> + sum_list (map abs xs) < 2 ^ 53"
  shows "foldl (\<lambda>s x. js_add s (Fin x)) (Fin a) xs = Fin (a + sum_list xs)"
  using assms
proof (induction xs arbitrary: a)
  case Nil
  then show ?case by simp
next
  case (Cons x xs)
  have n: "0 \<le> sum_list (map abs xs)"
    by (rule sum_list_nonneg) auto
  have i: "a + x \<in> \<int>" using Cons.prems by simp
  have "\<bar>a + x\<bar> \<le> \<bar>a\<bar> + \<bar>x\<bar>" by simp
  then have b: "\<bar>a + x\<bar> + sum_list (map abs xs) < 2 ^ 53"
    using Cons.prems(3) by simp
  then have "\<bar>a + x\<bar> < 2 ^ 53" using n by linarith
  then have s: "fl (a + x) = Fin (a + x)"
    using i by (intro fl_whole) (simp_all add: whole_iff)
  have "foldl (\<lambda>s x. js_add s (Fin x)) (Fin (a + x)) xs = Fin (a + x + sum_list xs)"
    using Cons.IH [OF i _ b] Cons.prems(2) by simp
  then show ?case by (simp add: s)
qed

lemma wholeNumbers_iff:
  "wholeNumbers xs \<longleftrightarrow> (\<forall>x \<in> set xs. x \<in> \<int>) \<and> sum_list (map abs xs) < 2 ^ 53"
  unfolding wholeNumbers_def whole_iff by (rule refl)

lemma sumDoubles_whole: "wholeNumbers xs \<Longrightarrow> sumDoubles xs = Fin (sum_list xs)"
  using foldl_whole [of 0 xs] by (simp add: wholeNumbers_iff sumDoubles_def)

lemma sum_abs_filter: "sum_list (map abs (filter P xs)) \<le> sum_list (map abs xs)"
  for xs :: "real list"
  by (induction xs) (auto simp add: add_increasing)

lemma wholeNumbers_filter: "wholeNumbers xs \<Longrightarrow> wholeNumbers (filter P xs)"
  using sum_abs_filter [of P xs] by (auto simp add: wholeNumbers_iff)

lemma wholeNumbers_map_filter:
  "wholeNumbers (map f xs) \<Longrightarrow> wholeNumbers (map f (filter P xs))"
proof -
  assume a: "wholeNumbers (map f xs)"
  have "sum_list (map abs (map f (filter P xs))) \<le> sum_list (map abs (map f xs))"
    by (induction xs) (auto simp add: add_increasing)
  then show ?thesis
    using a by (auto simp add: wholeNumbers_iff)
qed

lemma wholeNumbers_abs_sum: "wholeNumbers xs \<Longrightarrow> \<bar>sum_list xs\<bar> < 2 ^ 53"
proof -
  assume a: "wholeNumbers xs"
  have "\<bar>sum_list xs\<bar> \<le> sum_list (map abs xs)" by (rule sum_list_abs)
  then show ?thesis using a by (simp add: wholeNumbers_iff)
qed

lemma wholeNumbers_sum_Ints: "wholeNumbers xs \<Longrightarrow> sum_list xs \<in> \<int>"
  by (induction xs) (auto simp add: wholeNumbers_iff)

lemma sumTotalAmount_sumDoubles: "sumTotalAmount ts = sumDoubles (map totalAmount ts)"
  by (simp add: sumTotalAmount_def sumDoubles_def foldl_map)


section \<open>Finiteness of the key figures\<close>

lemma fl_bounded:
  assumes "\<bar>x\<bar> \<le> b" and "b < 2 ^ 1023"
  shows "\<exists>y. fl x = Fin y \<and> \<bar>y\<bar> \<le> 2 * b \<and> (0 \<le> x \<longrightarrow> 0 \<le> y) \<and> (x \<le> 0 \<longrightarrow> y \<le> 0)"
proof -
  have "\<bar>x\<bar> < 2 ^ 1023" using assms by linarith
  then obtain y where "fl x = Fin y" "\<bar>y\<bar> \<le> 2 * \<bar>x\<bar>" "0 \<le> x \<longrightarrow> 0 \<le> y" "x \<le> 0 \<longrightarrow> y \<le> 0"
    using fl_finite [of x] by blast
  moreover have "2 * \<bar>x\<bar> \<le> 2 * b" using assms(1) by simp
  ultimately show ?thesis by (metis order_trans)
qed

lemma powi_div: "(2::real) powi a / 2 powi b = 2 powi (a - b)"
  by (simp add: power_int_diff)

lemma quotient_bound:
  assumes "\<bar>d\<bar> \<le> D" and "l \<le> b" and "0 < l"
  shows "\<bar>d / b\<bar> \<le> D / (l :: real)"
proof -
  have b: "0 < b" using assms(2,3) by linarith
  have D: "0 \<le> D" using assms(1) by linarith
  have "\<bar>d / b\<bar> = \<bar>d\<bar> / b" using b by simp
  also have "\<dots> \<le> D / b" using assms(1) b by (simp add: divide_right_mono)
  also have "\<dots> \<le> D / l" using assms(2,3) D by (simp add: divide_left_mono)
  finally show ?thesis .
qed

text \<open>
  \<open>((a - b) / b) * 100\<close> is finite for \<open>a\<close> of magnitude at most \<open>2 ^ 301\<close> and \<open>b\<close>
  between \<open>2 powi - 334\<close> and \<open>2 ^ 301\<close>.
\<close>

lemma percentage_finite:
  assumes a: "\<bar>a\<bar> \<le> 2 ^ 301" and l: "2 powi (- 334) \<le> b" and u: "b \<le> 2 ^ 301"
  shows "isFinite (js_mul (js_div (js_sub (Fin a) (Fin b)) (Fin b)) (Fin 100))"
proof -
  have bp: "0 < b"
  proof -
    have "(0::real) < 2 powi (- 334)" by simp
    then show ?thesis using l by linarith
  qed
  have "\<bar>a - b\<bar> \<le> 2 ^ 302" using a u bp by simp
  then obtain d where d: "fl (a - b) = Fin d" and db: "\<bar>d\<bar> \<le> 2 * 2 ^ 302"
    using fl_bounded [of "a - b" "2 ^ 302"] by auto
  have "\<bar>d / b\<bar> \<le> (2 * 2 ^ 302) / 2 powi (- 334)"
    using db l by (rule quotient_bound) simp
  moreover have "(2 * 2 ^ 302) / 2 powi (- 334) = (2 ^ 637 :: real)"
  proof -
    have "(2 * 2 ^ 302 :: real) = 2 powi 303" by simp
    moreover have "(2 ^ 637 :: real) = 2 powi 637" by simp
    moreover have "(2 powi 303 :: real) / 2 powi (- 334) = 2 powi (303 - (- 334))"
      by (rule powi_div)
    ultimately show ?thesis by simp
  qed
  ultimately have "\<bar>d / b\<bar> \<le> 2 ^ 637" by simp
  then obtain q where q: "fl (d / b) = Fin q" and qb: "\<bar>q\<bar> \<le> 2 * 2 ^ 637"
    using fl_bounded [of "d / b" "2 ^ 637"] by auto
  have "\<bar>q * 100\<bar> \<le> 2 ^ 645"
  proof -
    have "\<bar>q * 100\<bar> = \<bar>q\<bar> * 100" by (simp add: abs_mult)
    also have "\<dots> \<le> (2 * 2 ^ 637) * 100" using qb by simp
    also have "\<dots> \<le> 2 ^ 645" by simp
    finally show ?thesis .
  qed
  then obtain r where r: "fl (q * 100) = Fin r"
    using fl_bounded [of "q * 100" "2 ^ 645"] by auto
  show ?thesis
    using bp by (simp add: js_sub_def d q r)
qed

lemma averageValue_finite:
  assumes "\<bar>t\<bar> \<le> b" and "b < 2 ^ 1023"
  shows "\<exists>a. averageValue (Fin t) n = Fin a \<and> \<bar>a\<bar> \<le> 2 * b \<and> (t \<le> 0 \<longrightarrow> a \<le> 0)"
proof (cases "0 < n")
  case False
  have "0 \<le> b" using assms(1) by linarith
  then show ?thesis using False by (simp add: averageValue_def)
next
  case True
  then have n: "1 \<le> real n" by simp
  have "\<bar>t / real n\<bar> \<le> b / 1"
    using assms(1) n by (rule quotient_bound) simp
  then have "\<bar>t / real n\<bar> \<le> b" by simp
  then obtain a where a: "fl (t / real n) = Fin a" "\<bar>a\<bar> \<le> 2 * b" "t / real n \<le> 0 \<longrightarrow> a \<le> 0"
    using fl_bounded [OF _ assms(2), of "t / real n"] by blast
  have "t \<le> 0 \<longrightarrow> t / real n \<le> 0" using True by (simp add: divide_le_0_iff)
  then show ?thesis using a True by (auto simp add: averageValue_def)
qed

lemma averageValue_nonpos: "p \<le> 0 \<Longrightarrow> \<not> js_gt (averageValue (Fin p) m) (Fin 0)"
proof (cases "0 < m")
  case False
  then show ?thesis by (simp add: averageValue_def)
next
  case True
  assume "p \<le> 0"
  then have "p / real m \<le> 0" using True by (simp add: divide_le_0_iff)
  then have "\<not> js_gt (fl (p / real m)) (Fin 0)" by (rule fl_nonpos)
  then show ?thesis using True by (simp add: averageValue_def)
qed

lemma averageValue_lower:
  assumes "averageValue (Fin p) m = Fin b" and "0 < b"
    and "2 powi (- 300) \<le> p" and "m < 2 ^ 32"
  shows "2 powi (- 334) \<le> b"
proof -
  have m: "0 < m" using assms(1,2) by (auto simp add: averageValue_def split: if_splits)
  then have f: "fl (p / real m) = Fin b"
    using assms(1) by (simp add: averageValue_def)
  have "real m \<le> 2 ^ 32" using assms(4) by (metis less_imp_le of_nat_le_iff of_nat_numeral of_nat_power)
  moreover have pp: "0 < p"
  proof -
    have "(0::real) < 2 powi (- 300)" by simp
    then show ?thesis using assms(3) by linarith
  qed
  ultimately have "p / 2 ^ 32 \<le> p / real m"
    using m by (intro frac_le) simp_all
  moreover have "2 powi (- 300) / 2 ^ 32 \<le> p / 2 ^ 32"
    using assms(3) by (simp add: divide_right_mono)
  moreover have "2 powi (- 300) / 2 ^ 32 = (2 powi (- 332) :: real)"
  proof -
    have "(2 ^ 32 :: real) = 2 powi 32" by simp
    moreover have "(2 powi (- 300) :: real) / 2 powi 32 = 2 powi (- 300 - 32)"
      by (rule powi_div)
    ultimately show ?thesis by simp
  qed
  ultimately have q: "2 powi (- 332) \<le> p / real m" by linarith
  define x where "x = p / real m"
  have qx: "2 powi (- 332) \<le> x" using q by (simp only: x_def)
  have fx: "fl x = Fin b" using f by (simp only: x_def)
  have "MIN_VALUE \<le> (2 powi (- 332) :: real)"
    unfolding MIN_VALUE_def by (rule powi_mono2) simp
  moreover have "x \<le> \<bar>x\<bar>" by (rule abs_ge_self)
  ultimately have "MIN_VALUE \<le> \<bar>x\<bar>" using qx by linarith
  then have "\<bar>x\<bar> / 2 \<le> \<bar>b\<bar>"
    using fl_lower [OF _ fx] by blast
  moreover have "\<bar>b\<bar> = b" using assms(2) by simp
  moreover have "x \<le> \<bar>x\<bar>" by (rule abs_ge_self)
  ultimately have "x / 2 \<le> b" by linarith
  then have "2 powi (- 332) / 2 \<le> b" using qx by linarith
  moreover have "2 powi (- 332) / 2 = (2 powi (- 333) :: real)"
  proof -
    have "(2 :: real) = 2 powi 1" by simp
    moreover have "(2 powi (- 332) :: real) / 2 powi 1 = 2 powi (- 332 - 1)"
      by (rule powi_div)
    ultimately show ?thesis by simp
  qed
  moreover have "(2 powi (- 334) :: real) \<le> 2 powi (- 333)"
    by (rule powi_mono2) simp
  ultimately show ?thesis by linarith
qed

lemma change_finite:
  assumes "\<bar>a\<bar> \<le> 2 ^ 301" and "b \<le> 0 \<or> 2 powi (- 334) \<le> b \<and> b \<le> 2 ^ 301"
  shows "isFinite (revenueChange (Fin a) (Fin b))"
    and "isFinite (avgValueChange (Fin a) (Fin b))"
  using assms percentage_finite [of a b]
  by (auto simp add: revenueChange_def avgValueChange_def)

lemma ordersChange_finite:
  assumes "n < 2 ^ 32" and "m < 2 ^ 32"
  shows "isFinite (ordersChange n m)"
proof (cases "0 < m")
  case False
  then show ?thesis by (simp add: ordersChange_def)
next
  case True
  have "real n \<le> 2 ^ 32" using assms(1) by (metis less_imp_le of_nat_le_iff of_nat_numeral of_nat_power)
  then have a: "\<bar>real n\<bar> \<le> 2 ^ 301" by simp
  have "real m \<le> 2 ^ 32" using assms(2) by (metis less_imp_le of_nat_le_iff of_nat_numeral of_nat_power)
  then have u: "real m \<le> 2 ^ 301" by simp
  have "(2 powi (- 334) :: real) \<le> 1" by simp
  moreover have "1 \<le> real m" using True by simp
  ultimately have l: "2 powi (- 334) \<le> real m" by linarith
  show ?thesis
    using percentage_finite [OF a l u] True by (simp add: ordersChange_def)
qed

lemma metrics_finite:
  assumes t: "sumTotalAmount ts = Fin t" "\<bar>t\<bar> \<le> 2 ^ 300"
    and p: "sumTotalAmount ps = Fin p" "p \<le> 0 \<or> 2 powi (- 300) \<le> p \<and> p \<le> 2 ^ 300"
    and m: "length ps < 2 ^ 32"
  shows "isFinite (avgOrderValue (metricsOf ts ps))"
    and "isFinite (revenue (previousPeriodComparison (metricsOf ts ps)))"
    and "isFinite (avgOrder (previousPeriodComparison (metricsOf ts ps)))"
proof -
  have big: "(2 ^ 300 :: real) < 2 ^ 1023" by simp
  obtain a where a: "averageValue (Fin t) (length ts) = Fin a" "\<bar>a\<bar> \<le> 2 * 2 ^ 300"
    using averageValue_finite [OF t(2) big] by blast
  show "isFinite (avgOrderValue (metricsOf ts ps))"
    by (simp add: metricsOf_def Let_def t(1) a(1))
  have "\<bar>t\<bar> \<le> 2 ^ 301" using t(2) by simp
  moreover have "p \<le> 0 \<or> 2 powi (- 334) \<le> p \<and> p \<le> 2 ^ 301"
  proof -
    have "(2 powi (- 334) :: real) \<le> 2 powi (- 300)" by (rule powi_mono2) simp
    then show ?thesis using p(2) by auto
  qed
  ultimately have "isFinite (revenueChange (Fin t) (Fin p))" by (rule change_finite)
  then show "isFinite (revenue (previousPeriodComparison (metricsOf ts ps)))"
    by (simp add: metricsOf_def Let_def t(1) p(1))
  show "isFinite (avgOrder (previousPeriodComparison (metricsOf ts ps)))"
  proof (cases "js_gt (averageValue (Fin p) (length ps)) (Fin 0)")
    case False
    then show ?thesis
      by (simp add: metricsOf_def Let_def t(1) p(1) avgValueChange_def)
  next
    case True
    have pp: "0 < p"
    proof (rule ccontr)
      assume "\<not> 0 < p"
      then have "p \<le> 0" by simp
      then have "\<not> js_gt (averageValue (Fin p) (length ps)) (Fin 0)"
        by (rule averageValue_nonpos)
      then show False using True by blast
    qed
    then have pr: "2 powi (- 300) \<le> p" "\<bar>p\<bar> \<le> 2 ^ 300" using p(2) by auto
    obtain b where b: "averageValue (Fin p) (length ps) = Fin b" "\<bar>b\<bar> \<le> 2 * 2 ^ 300"
      using averageValue_finite [OF pr(2) big] by blast
    have bp: "0 < b" using True b(1) by simp
    have "2 powi (- 334) \<le> b"
      using b(1) bp pr(1) m by (rule averageValue_lower)
    moreover have "b \<le> 2 ^ 301" using b(2) by simp
    moreover have "\<bar>a\<bar> \<le> 2 ^ 301" using a(2) by simp
    ultimately have "isFinite (avgValueChange (Fin a) (Fin b))"
      by (intro change_finite) auto
    then show ?thesis
      by (simp add: metricsOf_def Let_def t(1) p(1) a(1) b(1))
  qed
qed

text \<open>Whole-number amounts keep the revenue sums in range.\<close>

lemma whole_revenue:
  assumes "wholeNumbers (map totalAmount ts)"
  shows "\<exists>t. sumTotalAmount ts = Fin t \<and> \<bar>t\<bar> \<le> 2 ^ 300
              \<and> (t \<le> 0 \<or> 2 powi (- 300) \<le> t \<and> t \<le> 2 ^ 300)"
proof -
  let ?t = "sum_list (map totalAmount ts)"
  have s: "sumTotalAmount ts = Fin ?t"
    using assms by (simp add: sumTotalAmount_sumDoubles sumDoubles_whole)
  have "\<bar>?t\<bar> < 2 ^ 53" using assms by (rule wholeNumbers_abs_sum)
  then have b: "\<bar>?t\<bar> \<le> 2 ^ 300" by simp
  have "?t \<in> \<int>" using assms by (rule wholeNumbers_sum_Ints)
  then obtain k :: int where k: "?t = of_int k" by (rule Ints_cases)
  have "?t \<le> 0 \<or> 1 \<le> ?t"
  proof (cases "k \<le> 0")
    case True
    then show ?thesis by (simp add: k)
  next
    case False
    then have "1 \<le> k" by simp
    then show ?thesis by (simp add: k)
  qed
  moreover have "(2 powi (- 300) :: real) \<le> 1" by simp
  ultimately have "?t \<le> 0 \<or> 2 powi (- 300) \<le> ?t \<and> ?t \<le> 2 ^ 300"
    using b by auto
  then show ?thesis using s b by blast
qed

text \<open>
  C3 (as amended). The average order value is 0 when there is no current order, and each
  percentage change is 0 when the previous figure it divides by is 0. The orders change
  is finite for all arrays (fewer than \<open>2 ^ 32\<close> elements). The average order value is
  finite when the total revenue is finite and of magnitude below \<open>2 ^ 1023\<close>. All four
  figures are finite when the two revenue sums are finite, of magnitude at most
  \<open>2 ^ 300\<close>, and the previous revenue is not a positive number below \<open>2 powi - 300\<close>; in
  particular when the amounts of each window are whole numbers whose magnitudes add up to
  less than \<open>2 ^ 53\<close>. Without such bounds the figures overflow (\<open>exampleHuge\<close>).
\<close>

theorem C3_metrics_finite:
  "(length ts = 0 \<longrightarrow> avgOrderValue (metricsOf ts ps) = Fin 0)
   \<and> (sumTotalAmount ps = Fin 0 \<longrightarrow> revenue (previousPeriodComparison (metricsOf ts ps)) = Fin 0)
   \<and> (length ps = 0 \<longrightarrow> orders (previousPeriodComparison (metricsOf ts ps)) = Fin 0)
   \<and> (averageValue (sumTotalAmount ps) (length ps) = Fin 0
        \<longrightarrow> avgOrder (previousPeriodComparison (metricsOf ts ps)) = Fin 0)
   \<and> (length ts < 2 ^ 32 \<and> length ps < 2 ^ 32
        \<longrightarrow> isFinite (orders (previousPeriodComparison (metricsOf ts ps))))
   \<and> (\<forall>t. sumTotalAmount ts = Fin t \<and> \<bar>t\<bar> < 2 ^ 1023
        \<longrightarrow> isFinite (avgOrderValue (metricsOf ts ps)))
   \<and> (\<forall>t p. sumTotalAmount ts = Fin t \<and> \<bar>t\<bar> \<le> 2 ^ 300
          \<and> sumTotalAmount ps = Fin p \<and> (p \<le> 0 \<or> 2 powi (- 300) \<le> p \<and> p \<le> 2 ^ 300)
          \<and> length ps < 2 ^ 32
        \<longrightarrow> isFinite (avgOrderValue (metricsOf ts ps))
            \<and> isFinite (revenue (previousPeriodComparison (metricsOf ts ps)))
            \<and> isFinite (avgOrder (previousPeriodComparison (metricsOf ts ps))))
   \<and> (wholeNumbers (map totalAmount ts) \<and> wholeNumbers (map totalAmount ps)
          \<and> length ts < 2 ^ 32 \<and> length ps < 2 ^ 32
        \<longrightarrow> isFinite (avgOrderValue (metricsOf ts ps))
            \<and> isFinite (revenue (previousPeriodComparison (metricsOf ts ps)))
            \<and> isFinite (orders (previousPeriodComparison (metricsOf ts ps)))
            \<and> isFinite (avgOrder (previousPeriodComparison (metricsOf ts ps))))"
proof -
  have z1: "length ts = 0 \<longrightarrow> avgOrderValue (metricsOf ts ps) = Fin 0"
    by (simp add: metricsOf_def Let_def averageValue_def)
  have z2: "sumTotalAmount ps = Fin 0 \<longrightarrow> revenue (previousPeriodComparison (metricsOf ts ps)) = Fin 0"
    by (simp add: metricsOf_def Let_def revenueChange_def)
  have z3: "length ps = 0 \<longrightarrow> orders (previousPeriodComparison (metricsOf ts ps)) = Fin 0"
    by (simp add: metricsOf_def Let_def ordersChange_def)
  have z4: "averageValue (sumTotalAmount ps) (length ps) = Fin 0
        \<longrightarrow> avgOrder (previousPeriodComparison (metricsOf ts ps)) = Fin 0"
    by (simp add: metricsOf_def Let_def avgValueChange_def)
  have ord: "isFinite (orders (previousPeriodComparison (metricsOf ts ps)))"
    if "length ts < 2 ^ 32" and "length ps < 2 ^ 32"
    using ordersChange_finite [OF that] by (simp add: metricsOf_def Let_def)
  have avg: "isFinite (avgOrderValue (metricsOf ts ps))"
    if s: "sumTotalAmount ts = Fin t" and b: "\<bar>t\<bar> < 2 ^ 1023" for t
  proof -
    have "\<bar>t\<bar> \<le> \<bar>t\<bar>" by simp
    then obtain a where "averageValue (Fin t) (length ts) = Fin a"
      using averageValue_finite [OF _ b, of t "length ts"] by blast
    then show ?thesis by (simp add: metricsOf_def Let_def s)
  qed
  have all3: "isFinite (avgOrderValue (metricsOf ts ps))
            \<and> isFinite (revenue (previousPeriodComparison (metricsOf ts ps)))
            \<and> isFinite (avgOrder (previousPeriodComparison (metricsOf ts ps)))"
    if "sumTotalAmount ts = Fin t" and "\<bar>t\<bar> \<le> 2 ^ 300" and "sumTotalAmount ps = Fin p"
      and "p \<le> 0 \<or> 2 powi (- 300) \<le> p \<and> p \<le> 2 ^ 300" and "length ps < 2 ^ 32" for t p
    using metrics_finite [OF that] by blast
  have whole: "isFinite (avgOrderValue (metricsOf ts ps))
            \<and> isFinite (revenue (previousPeriodComparison (metricsOf ts ps)))
            \<and> isFinite (orders (previousPeriodComparison (metricsOf ts ps)))
            \<and> isFinite (avgOrder (previousPeriodComparison (metricsOf ts ps)))"
    if w1: "wholeNumbers (map totalAmount ts)" and w2: "wholeNumbers (map totalAmount ps)"
      and l1: "length ts < 2 ^ 32" and l2: "length ps < 2 ^ 32"
  proof -
    obtain t where t: "sumTotalAmount ts = Fin t" "\<bar>t\<bar> \<le> 2 ^ 300"
      using whole_revenue [OF w1] by blast
    obtain p where p: "sumTotalAmount ps = Fin p"
      "p \<le> 0 \<or> 2 powi (- 300) \<le> p \<and> p \<le> 2 ^ 300"
      using whole_revenue [OF w2] by blast
    show ?thesis
      using all3 [OF t p l2] ord [OF l1 l2] by blast
  qed
  from z1 z2 z3 z4 ord avg all3 whole show ?thesis by blast
qed

theorem C3_metrics_finite_witness:
  "length ([] :: transaction list) = 0
   \<and> sumTotalAmount [] = Fin 0
   \<and> averageValue (sumTotalAmount []) (length ([] :: transaction list)) = Fin 0
   \<and> avgOrderValue (metricsOf [] []) = Fin 0
   \<and> revenue (previousPeriodComparison (metricsOf [] [])) = Fin 0
   \<and> orders (previousPeriodComparison (metricsOf [] [])) = Fin 0
   \<and> avgOrder (previousPeriodComparison (metricsOf [] [])) = Fin 0
   \<and> wholeNumbers (map totalAmount exampleMorning) \<and> wholeNumbers (map totalAmount exampleUnit)
   \<and> length exampleMorning < 2 ^ 32 \<and> length exampleUnit < 2 ^ 32
   \<and> sumTotalAmount exampleMorning = Fin 150 \<and> \<bar>150 :: real\<bar> \<le> 2 ^ 300
   \<and> sumTotalAmount exampleUnit = Fin 1 \<and> 2 powi (- 300) \<le> (1 :: real) \<and> (1 :: real) \<le> 2 ^ 300
   \<and> isFinite (avgOrderValue (metricsOf exampleMorning exampleUnit))
   \<and> isFinite (revenue (previousPeriodComparison (metricsOf exampleMorning exampleUnit)))
   \<and> isFinite (orders (previousPeriodComparison (metricsOf exampleMorning exampleUnit)))
   \<and> isFinite (avgOrder (previousPeriodComparison (metricsOf exampleMorning exampleUnit)))"
proof -
  have a: "wholeNumbers (map totalAmount exampleMorning)"
    by (simp add: wholeNumbers_def exampleMorning_def)
  have b: "wholeNumbers (map totalAmount exampleUnit)"
    by (simp add: wholeNumbers_def exampleUnit_def)
  have c: "length exampleMorning < 2 ^ 32" "length exampleUnit < 2 ^ 32"
    by (simp_all add: exampleMorning_def exampleUnit_def)
  have d: "sumTotalAmount exampleMorning = Fin 150"
    using sumDoubles_whole [OF a] by (simp add: sumTotalAmount_sumDoubles exampleMorning_def)
  have e: "sumTotalAmount exampleUnit = Fin 1"
    using sumDoubles_whole [OF b] by (simp add: sumTotalAmount_sumDoubles exampleUnit_def)
  have f: "\<bar>150 :: real\<bar> \<le> 2 ^ 300" "2 powi (- 300) \<le> (1 :: real)" "(1 :: real) \<le> 2 ^ 300"
    by simp_all
  have g: "sumTotalAmount [] = Fin 0"
    by (simp add: sumTotalAmount_def)
  have h: "averageValue (sumTotalAmount []) (length ([] :: transaction list)) = Fin 0"
    by (simp add: averageValue_def)
  have "avgOrderValue (metricsOf [] []) = Fin 0
   \<and> revenue (previousPeriodComparison (metricsOf [] [])) = Fin 0
   \<and> orders (previousPeriodComparison (metricsOf [] [])) = Fin 0
   \<and> avgOrder (previousPeriodComparison (metricsOf [] [])) = Fin 0"
    using C3_metrics_finite [of "[]" "[]"] g h by simp
  moreover have "isFinite (avgOrderValue (metricsOf exampleMorning exampleUnit))
   \<and> isFinite (revenue (previousPeriodComparison (metricsOf exampleMorning exampleUnit)))
   \<and> isFinite (orders (previousPeriodComparison (metricsOf exampleMorning exampleUnit)))
   \<and> isFinite (avgOrder (previousPeriodComparison (metricsOf exampleMorning exampleUnit)))"
    using C3_metrics_finite [of exampleMorning exampleUnit] a b c by blast
  ultimately show ?thesis
    using a b c d e f g h by simp
qed

text \<open>
  Two sales of \<open>2 ^ 1023\<close> add up to Infinity, and so does their average. A single sale
  of \<open>2 ^ 1023\<close> after a previous window with a single sale of 1 gives finite revenues and
  averages, whose percentage changes overflow to Infinity.
\<close>

theorem C3_overflow_counterexample:
  "sumTotalAmount exampleHuge = PosInf
   \<and> avgOrderValue (metricsOf exampleHuge []) = PosInf
   \<and> \<not> isFinite (avgOrderValue (metricsOf exampleHuge []))
   \<and> totalRevenue (metricsOf (take 1 exampleHuge) exampleUnit) = Fin (2 ^ 1023)
   \<and> avgOrderValue (metricsOf (take 1 exampleHuge) exampleUnit) = Fin (2 ^ 1023)
   \<and> sumTotalAmount exampleUnit = Fin 1
   \<and> revenue (previousPeriodComparison (metricsOf (take 1 exampleHuge) exampleUnit)) = PosInf
   \<and> avgOrder (previousPeriodComparison (metricsOf (take 1 exampleHuge) exampleUnit)) = PosInf
   \<and> \<not> isFinite (revenue (previousPeriodComparison (metricsOf (take 1 exampleHuge) exampleUnit)))
   \<and> \<not> isFinite (avgOrder (previousPeriodComparison (metricsOf (take 1 exampleHuge) exampleUnit)))"
proof -
  define T :: real where "T = 2 ^ 1023"
  have T: "T = of_int 1 * 2 powi 1023" "T + T = of_int 1 * 2 powi 1024" "2 * T = of_int 1 * 2 powi 1024"
    "\<bar>T\<bar> < 2 ^ 1024" "2 ^ 1024 \<le> T + T" "2 ^ 1024 \<le> 2 * T" "MIN_VALUE \<le> T - 1"
    "2 ^ 1025 \<le> 25 * (T - 1)" "0 < T"
    by (simp_all add: T_def MIN_VALUE_def)
  have flT: "fl T = Fin T"
    using T(1) _ _ T(4) by (rule fl_exact) simp_all
  have flTT: "fl (T + T) = PosInf"
    using T(2) _ _ T(5) by (rule fl_overflow_exact) simp_all
  have flT2: "fl (2 * T) = PosInf"
    using T(3) _ _ T(6) by (rule fl_overflow_exact) simp_all
  have fl1: "fl 1 = Fin 1"
    by (rule fl_whole) simp_all
  have hs: "exampleHuge =
     [\<lparr>totalAmount = T, createdAt = 1710494100000, items = []\<rparr>,
      \<lparr>totalAmount = T, createdAt = 1710495900000, items = []\<rparr>]"
    by (simp only: exampleHuge_def T_def)
  have a: "sumTotalAmount exampleHuge = PosInf"
    by (simp add: sumTotalAmount_def hs flT flTT flT2)
  have b: "sumTotalAmount (take (Suc 0) exampleHuge) = Fin T"
    by (simp add: sumTotalAmount_def hs flT)
  have c: "sumTotalAmount exampleUnit = Fin 1"
    by (simp add: sumTotalAmount_def exampleUnit_def fl1)
  have d: "length exampleHuge = 2" "length (take 1 exampleHuge) = 1" "length exampleUnit = 1"
    by (simp_all add: hs exampleUnit_def)
  have e: "avgOrderValue (metricsOf exampleHuge []) = PosInf"
    by (simp add: metricsOf_def Let_def a d averageValue_def)
  have f: "averageValue (Fin T) (Suc 0) = Fin T" "averageValue (Fin 1) (Suc 0) = Fin 1"
    by (simp_all add: averageValue_def flT fl1)
  have g: "js_mul (js_div (js_sub (Fin T) (Fin 1)) (Fin 1)) (Fin 100) = PosInf"
  proof -
    consider "fl (T - 1) = PosInf" | y where "fl (T - 1) = Fin y" "(T - 1) / 2 \<le> y"
      using fl_pos_cases [OF T(7)] by blast
    then show ?thesis
    proof cases
      case 1
      then show ?thesis by (simp add: js_sub_def)
    next
      case 2
      have "MIN_VALUE \<le> (T - 1) / 2" using T(7,8) MIN_VALUE_pos
        by (simp add: T_def MIN_VALUE_def)
      then have my: "MIN_VALUE \<le> y" using 2(2) by linarith
      consider "fl y = PosInf" | z where "fl y = Fin z" "y / 2 \<le> z"
        using fl_pos_cases [OF my] by blast
      then show ?thesis
      proof cases
        case 1
        then show ?thesis using 2(1) by (simp add: js_sub_def)
      next
        case z: 2
        have "2 ^ 1025 \<le> z * 100" using z(2) 2(2) T(8) by linarith
        then have "fl (z * 100) = PosInf" by (rule fl_overflow)
        then show ?thesis using 2(1) z(1) by (simp add: js_sub_def)
      qed
    qed
  qed
  have h: "revenue (previousPeriodComparison (metricsOf (take 1 exampleHuge) exampleUnit)) = PosInf"
    "avgOrder (previousPeriodComparison (metricsOf (take 1 exampleHuge) exampleUnit)) = PosInf"
    using g by (simp_all add: metricsOf_def Let_def b c d f revenueChange_def avgValueChange_def)
  have i: "totalRevenue (metricsOf (take 1 exampleHuge) exampleUnit) = Fin T"
    "avgOrderValue (metricsOf (take 1 exampleHuge) exampleUnit) = Fin T"
    by (simp_all add: metricsOf_def Let_def b c d f)
  show ?thesis
    using a c e h i by (simp add: T_def)
qed

section \<open>Explicit windows\<close>

text \<open>
  C6. When the query gives both a start and an end (non-empty strings that parse to the
  instants \<open>s\<close> and \<open>e\<close>), the window is \<open>s\<close> to \<open>e\<close> whatever the timeframe is, and the
  previous window ends at \<open>s\<close> and starts at \<open>s - (e - s)\<close>.
\<close>

theorem C6_explicit_window:
  "startDate = Some a \<Longrightarrow> a \<noteq> [] \<Longrightarrow> endDate = Some b \<Longrightarrow> b \<noteq> [] \<Longrightarrow>
   parse a = Some s \<Longrightarrow> parse b = Some e \<Longrightarrow>
   resolveDateRange parse now timeframe startDate endDate =
     Some \<lparr>start = s, end' = e, previous = \<lparr>start = s - (e - s), end' = s\<rparr>\<rparr>"
  by (simp add: resolveDateRange_def)

theorem C6_explicit_window_witness:
  "resolveDateRange
     (\<lambda>x. if x = ''2024-01-11'' then Some 1704931200000
          else if x = ''2024-01-21'' then Some 1705795200000 else None)
     1710506096789 (Some ''Month'') (Some ''2024-01-11'') (Some ''2024-01-21'') =
     Some \<lparr>start = 1704931200000, end' = 1705795200000,
           previous = \<lparr>start = 1704067200000, end' = 1704931200000\<rparr>\<rparr>"
  using C6_explicit_window [of "Some ''2024-01-11''" "''2024-01-11''"
      "Some ''2024-01-21''" "''2024-01-21''"
      "\<lambda>x. if x = ''2024-01-11'' then Some 1704931200000
          else if x = ''2024-01-21'' then Some 1705795200000 else None"
      1704931200000 1705795200000 1710506096789 "Some ''Month''"]
  by simp

section \<open>Filling the buckets\<close>

lemma hourlyPoints_list: "hourlyPoints s = map (\<lambda>i. \<lparr>name = toString i @ '':00'', timestamp = setHours s i, value' = Fin 0\<rparr>) [0,1,2,3,4,5,6,7,8,9,10,11,12,13,14,15,16,17,18,19,20,21,22,23]"
  unfolding hourlyPoints_def by (simp add: upto_rec1)

lemma timestamp_fillPoint: "timestamp (fillPoint tf dr t p) = timestamp p"
  by (simp add: fillPoint_def)

lemma value_fillPoint:
  "value' (fillPoint tf dr t p) =
     (if isMatch tf dr (createdAt t) (timestamp p)
      then js_add (orZero (value' p)) (Fin (totalAmount t)) else value' p)"
  by (simp add: fillPoint_def)

lemma matches_fill_one:
  "filter (\<lambda>p. isMatch tf dr c (timestamp p)) (map (fillPoint tf' dr' t) ps) =
     map (fillPoint tf' dr' t) (filter (\<lambda>p. isMatch tf dr c (timestamp p)) ps)"
  by (induction ps) (simp_all add: timestamp_fillPoint)

text \<open>The fill loop treats every bucket on its own.\<close>

lemma fillTrendPoints_map:
  "fillTrendPoints tf dr ts ps = map (\<lambda>p. foldl (\<lambda>q t. fillPoint tf dr t q) p ts) ps"
proof (induction ts arbitrary: ps)
  case Nil
  then show ?case by (simp add: fillTrendPoints_def)
next
  case (Cons t ts)
  have "fillTrendPoints tf dr (t # ts) ps = fillTrendPoints tf dr ts (map (fillPoint tf dr t) ps)"
    by (simp add: fillTrendPoints_def)
  then show ?case by (simp add: Cons.IH comp_def)
qed

lemma timestamp_fill: "timestamp (foldl (\<lambda>q t. fillPoint tf dr t q) p ts) = timestamp p"
  by (induction ts arbitrary: p) (simp_all add: timestamp_fillPoint)

lemma value_fill:
  assumes "onGrid (value' p)"
  shows "value' (foldl (\<lambda>q t. fillPoint tf dr t q) p ts) =
           foldl (\<lambda>s x. js_add s (Fin x)) (value' p) (map totalAmount (matching tf dr ts p))"
  using assms
proof (induction ts arbitrary: p)
  case Nil
  then show ?case by (simp add: matching_def)
next
  case (Cons t ts)
  let ?q = "fillPoint tf dr t p"
  have g: "onGrid (value' ?q)"
    using Cons.prems by (simp add: value_fillPoint orZero_onGrid onGrid_js_add)
  have m: "matching tf dr ts ?q = matching tf dr ts p"
    by (simp add: matching_def timestamp_fillPoint)
  have "value' (foldl (\<lambda>q t. fillPoint tf dr t q) ?q ts) =
      foldl (\<lambda>s x. js_add s (Fin x)) (value' ?q) (map totalAmount (matching tf dr ts p))"
    using Cons.IH [OF g] by (simp only: m)
  then show ?case
    using Cons.prems by (simp add: value_fillPoint orZero_onGrid matching_def)
qed

lemma values_fillTrendPoints:
  assumes "\<forall>p \<in> set ps. value' p = Fin 0"
  shows "map value' (fillTrendPoints tf dr ts ps) =
           map (\<lambda>p. sumDoubles (map totalAmount (matching tf dr ts p))) ps"
proof -
  have "value' (foldl (\<lambda>q t. fillPoint tf dr t q) p ts) =
          sumDoubles (map totalAmount (matching tf dr ts p))" if "p \<in> set ps" for p
  proof -
    have z: "value' p = Fin 0" using assms that by blast
    then have "onGrid (value' p)" by (simp add: onGrid_zero)
    then show ?thesis using value_fill [of p tf dr ts] by (simp add: z sumDoubles_def)
  qed
  then show ?thesis by (simp add: fillTrendPoints_map)
qed

text \<open>Adding up, bucket by bucket, what every transaction contributes.\<close>

lemma sum_one_transaction:
  "sum_list (map (\<lambda>p. if P p then a else 0) ps) = a * real (length (filter P ps))"
  by (induction ps) (simp_all add: algebra_simps)

lemma sum_matching:
  assumes "\<forall>t \<in> set ts. length (filter (\<lambda>p. isMatch tf dr (createdAt t) (timestamp p)) ps) = 1"
  shows "sum_list (map (\<lambda>p. sum_list (map totalAmount (matching tf dr ts p))) ps) =
           sum_list (map totalAmount ts)"
  using assms
proof (induction ts)
  case Nil
  then show ?case by (simp add: matching_def)
next
  case (Cons t ts)
  have one: "length (filter (\<lambda>p. isMatch tf dr (createdAt t) (timestamp p)) ps) = 1"
    using Cons.prems by simp
  have "sum_list (map (\<lambda>p. sum_list (map totalAmount (matching tf dr (t # ts) p))) ps) =
      sum_list (map (\<lambda>p. (if isMatch tf dr (createdAt t) (timestamp p) then totalAmount t else 0)
                        + sum_list (map totalAmount (matching tf dr ts p))) ps)"
    by (rule arg_cong [of _ _ sum_list]) (simp add: matching_def)
  also have "\<dots> =
      sum_list (map (\<lambda>p. if isMatch tf dr (createdAt t) (timestamp p) then totalAmount t else 0) ps)
      + sum_list (map (\<lambda>p. sum_list (map totalAmount (matching tf dr ts p))) ps)"
    by (rule sum_list_addf)
  also have "\<dots> = totalAmount t + sum_list (map totalAmount ts)"
    using Cons.IH Cons.prems one by (simp add: sum_one_transaction)
  finally show ?case by simp
qed

text \<open>
  C2 (as amended). For empty buckets and current-window transactions such that every
  transaction's timestamp matches exactly one bucket: after the fill loop every bucket
  holds the running double-precision total of the amounts of the transactions it matches,
  in the order of the transactions, and the total revenue is the running total of all
  amounts. When the amounts are whole numbers whose magnitudes add up to less than
  \<open>2 ^ 53\<close>, no addition rounds: every bucket holds the exact sum of its amounts, and the
  bucket values add up to the total revenue, the sum of \<open>totalAmount\<close> over the
  transactions. For other amounts the two sides are rounded along different additions and
  can differ (\<open>exampleCents\<close>).
\<close>

theorem C2_bucket_sum:
  assumes "\<forall>p \<in> set points. value' p = Fin 0"
    and "\<forall>t \<in> set transactions.
           length (filter (\<lambda>p. isMatch timeframe dr (createdAt t) (timestamp p)) points) = 1"
  shows "map value' (fillTrendPoints timeframe dr transactions points) =
           map (\<lambda>p. sumDoubles (map totalAmount (matching timeframe dr transactions p))) points
         \<and> sumTotalAmount transactions = sumDoubles (map totalAmount transactions)
         \<and> (wholeNumbers (map totalAmount transactions) \<longrightarrow>
              map value' (fillTrendPoints timeframe dr transactions points) =
                map (\<lambda>p. Fin (sum_list (map totalAmount (matching timeframe dr transactions p))))
                  points
              \<and> sum_list (map (\<lambda>p. sum_list (map totalAmount
                                     (matching timeframe dr transactions p))) points) =
                  sum_list (map totalAmount transactions)
              \<and> sumTotalAmount transactions = Fin (sum_list (map totalAmount transactions)))"
proof -
  have v: "map value' (fillTrendPoints timeframe dr transactions points) =
           map (\<lambda>p. sumDoubles (map totalAmount (matching timeframe dr transactions p))) points"
    using assms(1) by (rule values_fillTrendPoints)
  have s: "sumTotalAmount transactions = sumDoubles (map totalAmount transactions)"
    by (rule sumTotalAmount_sumDoubles)
  have w: "map value' (fillTrendPoints timeframe dr transactions points) =
                map (\<lambda>p. Fin (sum_list (map totalAmount (matching timeframe dr transactions p))))
                  points
              \<and> sum_list (map (\<lambda>p. sum_list (map totalAmount
                                     (matching timeframe dr transactions p))) points) =
                  sum_list (map totalAmount transactions)
              \<and> sumTotalAmount transactions = Fin (sum_list (map totalAmount transactions))"
    if whole: "wholeNumbers (map totalAmount transactions)"
  proof -
    have "sumDoubles (map totalAmount (matching timeframe dr transactions p)) =
            Fin (sum_list (map totalAmount (matching timeframe dr transactions p)))" for p
      unfolding matching_def
      by (rule sumDoubles_whole) (rule wholeNumbers_map_filter [OF whole])
    then have a: "map value' (fillTrendPoints timeframe dr transactions points) =
                map (\<lambda>p. Fin (sum_list (map totalAmount (matching timeframe dr transactions p))))
                  points"
      by (simp only: v)
    have b: "sum_list (map (\<lambda>p. sum_list (map totalAmount
                                     (matching timeframe dr transactions p))) points) =
                  sum_list (map totalAmount transactions)"
      using assms(2) by (rule sum_matching)
    have c: "sumTotalAmount transactions = Fin (sum_list (map totalAmount transactions))"
      using whole by (simp only: s sumDoubles_whole)
    from a b c show ?thesis by blast
  qed
  from v s w show ?thesis by blast
qed

theorem C2_bucket_sum_witness:
  "list_all (\<lambda>p. value' p = Fin 0) (hourlyPoints (start exampleDay))
   \<and> list_all (\<lambda>t. length (filter (\<lambda>p. isMatch (Some ''Today'') exampleDay (createdAt t) (timestamp p))
                               (hourlyPoints (start exampleDay))) = 1) exampleMorning
   \<and> wholeNumbers (map totalAmount exampleMorning)
   \<and> map value' (fillTrendPoints (Some ''Today'') exampleDay exampleMorning
                    (hourlyPoints (start exampleDay))) =
       map Fin [0, 0, 0, 0, 0, 0, 0, 0, 0, 150, 0, 0, 0, 0, 0, 0, 0, 0, 0, 0, 0, 0, 0, 0]
   \<and> sum_list (map (\<lambda>p. sum_list (map totalAmount
                          (matching (Some ''Today'') exampleDay exampleMorning p)))
                (hourlyPoints (start exampleDay))) = 150
   \<and> sumTotalAmount exampleMorning = Fin 150"
proof -
  have a: "\<forall>p \<in> set (hourlyPoints (start exampleDay)). value' p = Fin 0"
    by (simp add: hourlyPoints_def)
  have b: "\<forall>t \<in> set exampleMorning.
      length (filter (\<lambda>p. isMatch (Some ''Today'') exampleDay (createdAt t) (timestamp p))
                (hourlyPoints (start exampleDay))) = 1"
    by (simp add: hourlyPoints_list exampleMorning_def exampleDay_def isMatch_def getHours_def
        setHours_def timeWithinDay_def msPerDay_def msPerHour_def)
  have c: "wholeNumbers (map totalAmount exampleMorning)"
    by (simp add: wholeNumbers_def exampleMorning_def)
  have d: "map (\<lambda>p. sum_list (map totalAmount
                          (matching (Some ''Today'') exampleDay exampleMorning p)))
                (hourlyPoints (start exampleDay)) =
       [0, 0, 0, 0, 0, 0, 0, 0, 0, 150, 0, 0, 0, 0, 0, 0, 0, 0, 0, 0, 0, 0, 0, 0]"
    by (simp add: hourlyPoints_list exampleMorning_def exampleDay_def matching_def isMatch_def
        getHours_def setHours_def timeWithinDay_def msPerDay_def msPerHour_def)
  have e: "sum_list (map totalAmount exampleMorning) = 150"
    by (simp add: exampleMorning_def)
  have f: "map (\<lambda>p. Fin (sum_list (map totalAmount
                          (matching (Some ''Today'') exampleDay exampleMorning p))))
                (hourlyPoints (start exampleDay)) =
       map Fin (map (\<lambda>p. sum_list (map totalAmount
                          (matching (Some ''Today'') exampleDay exampleMorning p)))
                (hourlyPoints (start exampleDay)))"
    by (simp add: comp_def)
  have "map value' (fillTrendPoints (Some ''Today'') exampleDay exampleMorning
                    (hourlyPoints (start exampleDay))) =
          map (\<lambda>p. Fin (sum_list (map totalAmount
                          (matching (Some ''Today'') exampleDay exampleMorning p))))
                (hourlyPoints (start exampleDay))
      \<and> sum_list (map (\<lambda>p. sum_list (map totalAmount
                          (matching (Some ''Today'') exampleDay exampleMorning p)))
                (hourlyPoints (start exampleDay))) = sum_list (map totalAmount exampleMorning)
      \<and> sumTotalAmount exampleMorning = Fin (sum_list (map totalAmount exampleMorning))"
    using C2_bucket_sum [OF a b] c by blast
  then have "map value' (fillTrendPoints (Some ''Today'') exampleDay exampleMorning
                    (hourlyPoints (start exampleDay))) =
       map Fin [0, 0, 0, 0, 0, 0, 0, 0, 0, 150, 0, 0, 0, 0, 0, 0, 0, 0, 0, 0, 0, 0, 0, 0]
   \<and> sum_list (map (\<lambda>p. sum_list (map totalAmount
                          (matching (Some ''Today'') exampleDay exampleMorning p)))
                (hourlyPoints (start exampleDay))) = 150
   \<and> sumTotalAmount exampleMorning = Fin 150"
    by (simp only: f d e)
  then show ?thesis
    using a b c by (simp only: list_all_iff)
qed

text \<open>
  The amounts 0.1, 0.2 and 0.3 of \<open>exampleCents\<close> fall into the buckets 9:00 (0.1) and
  10:00 (0.2 + 0.3 = 0.5). The total revenue is 0.1 + 0.2 + 0.3 = 0.6000000000000001,
  which is neither the exact sum of the bucket values nor their double-precision sum 0.6.
\<close>

theorem C2_rounding_counterexample:
  "list_all (\<lambda>p. value' p = Fin 0) (hourlyPoints (start exampleDay))
   \<and> list_all (\<lambda>t. length (filter (\<lambda>p. isMatch (Some ''Today'') exampleDay (createdAt t) (timestamp p))
                               (hourlyPoints (start exampleDay))) = 1) exampleCents
   \<and> map value' (fillTrendPoints (Some ''Today'') exampleDay exampleCents
                    (hourlyPoints (start exampleDay))) =
       map Fin [0, 0, 0, 0, 0, 0, 0, 0, 0, 3602879701896397 / 36028797018963968, 1 / 2,
                0, 0, 0, 0, 0, 0, 0, 0, 0, 0, 0, 0, 0]
   \<and> sumTotalAmount exampleCents = Fin (1351079888211149 / 2251799813685248)
   \<and> sum_list [0, 0, 0, 0, 0, 0, 0, 0, 0, 3602879701896397 / 36028797018963968, 1 / 2,
               0, 0, 0, 0, 0, 0, 0, 0, 0, 0, 0, 0, 0]
       \<noteq> (1351079888211149 / 2251799813685248 :: real)
   \<and> sumDoubles [0, 0, 0, 0, 0, 0, 0, 0, 0, 3602879701896397 / 36028797018963968, 1 / 2,
                 0, 0, 0, 0, 0, 0, 0, 0, 0, 0, 0, 0, 0]
       = Fin (5404319552844595 / 9007199254740992)
   \<and> sumDoubles [0, 0, 0, 0, 0, 0, 0, 0, 0, 3602879701896397 / 36028797018963968, 1 / 2,
                 0, 0, 0, 0, 0, 0, 0, 0, 0, 0, 0, 0, 0]
       \<noteq> sumTotalAmount exampleCents"
proof -
  have a: "list_all (\<lambda>p. value' p = Fin 0) (hourlyPoints (start exampleDay))"
    by (simp add: hourlyPoints_def list_all_iff)
  have c: "exampleCents =
     [\<lparr>totalAmount = 3602879701896397 / 36028797018963968, createdAt = 1710494100000, items = []\<rparr>,
      \<lparr>totalAmount = 3602879701896397 / 18014398509481984, createdAt = 1710497100000, items = []\<rparr>,
      \<lparr>totalAmount = 5404319552844595 / 18014398509481984, createdAt = 1710498600000, items = []\<rparr>]"
    by (simp add: exampleCents_def double_def fl_def roundedAbs_def ulpExp_def ilog2_def
        roundHalfEven_def compute_bitlen)
  have b: "list_all (\<lambda>t. length (filter (\<lambda>p. isMatch (Some ''Today'') exampleDay (createdAt t) (timestamp p))
                               (hourlyPoints (start exampleDay))) = 1) exampleCents"
    by (simp add: hourlyPoints_list c exampleDay_def isMatch_def getHours_def
        setHours_def timeWithinDay_def msPerDay_def msPerHour_def)
  have d: "map value' (fillTrendPoints (Some ''Today'') exampleDay exampleCents
                    (hourlyPoints (start exampleDay))) =
       map Fin [0, 0, 0, 0, 0, 0, 0, 0, 0, 3602879701896397 / 36028797018963968, 1 / 2,
                0, 0, 0, 0, 0, 0, 0, 0, 0, 0, 0, 0, 0]"
    by (simp add: hourlyPoints_list c exampleDay_def fillTrendPoints_def fillPoint_def orZero_def
        isMatch_def getHours_def setHours_def timeWithinDay_def msPerDay_def msPerHour_def
        fl_def roundedAbs_def ulpExp_def ilog2_def roundHalfEven_def compute_bitlen)
  have e: "sumTotalAmount exampleCents = Fin (1351079888211149 / 2251799813685248)"
    by (simp add: c sumTotalAmount_def fl_def roundedAbs_def ulpExp_def ilog2_def
        roundHalfEven_def compute_bitlen)
  have f: "sumDoubles [0, 0, 0, 0, 0, 0, 0, 0, 0, 3602879701896397 / 36028797018963968, 1 / 2,
                 0, 0, 0, 0, 0, 0, 0, 0, 0, 0, 0, 0, 0]
       = Fin (5404319552844595 / 9007199254740992)"
    by (simp add: sumDoubles_def fl_def roundedAbs_def ulpExp_def ilog2_def
        roundHalfEven_def compute_bitlen)
  show ?thesis
    using a b d e f by simp
qed

section \<open>Category shares\<close>

lemma map_set_not_Nil: "map_set m k v \<noteq> []"
  by (induction m k v rule: map_set.induct) simp_all

lemma foldl_addCategoryRevenue_not_Nil:
  "m \<noteq> [] \<or> its \<noteq> [] \<Longrightarrow> foldl addCategoryRevenue m its \<noteq> []"
  by (induction its arbitrary: m) (simp_all add: addCategoryRevenue_def map_set_not_Nil)

lemma foldl_nested:
  "foldl (\<lambda>m t. foldl f m (g t)) m ts = foldl f m (concat (map g ts))"
  by (induction ts arbitrary: m) simp_all

lemma categoryRevenue_concat:
  "categoryRevenue ts = foldl addCategoryRevenue [] (concat (map items ts))"
  by (simp add: categoryRevenue_def foldl_nested)

lemma percentage_by_zero: "\<not> isFinite (js_mul (js_div r (Fin 0)) (Fin 100))"
  by (cases r) simp_all

text \<open>
  C4. The category percentage is not guarded: whenever the current transactions have at
  least one line item and a total revenue of 0, the category list is not empty and every
  entry's percentage (revenue / totalRevenue * 100) is NaN or an infinity. The sample
  \<open>exampleGift\<close> is such an input.
\<close>

theorem C4_category_percentage_unguarded:
  assumes "concat (map items ts) \<noteq> []" and "sumTotalAmount ts = Fin 0"
  shows "revenueByCategoryOf ts \<noteq> []
         \<and> (\<forall>e \<in> set (revenueByCategoryOf ts). \<not> isFinite (cat_percentage e))"
proof -
  have "categoryRevenue ts \<noteq> []"
    using assms(1) by (simp add: categoryRevenue_concat foldl_addCategoryRevenue_not_Nil)
  then have ne: "revenueByCategoryOf ts \<noteq> []"
    by (simp add: revenueByCategoryOf_def)
  have "\<forall>e \<in> set (revenueByCategoryOf ts). \<not> isFinite (cat_percentage e)"
    using assms(2) by (auto simp add: revenueByCategoryOf_def percentage_by_zero)
  with ne show ?thesis by simp
qed

theorem C4_category_percentage_unguarded_witness:
  "concat (map items exampleGift) \<noteq> [] \<and> sumTotalAmount exampleGift = Fin 0
   \<and> revenueByCategoryOf exampleGift =
       [\<lparr>cat_category = ''Uncategorized'', cat_revenue = Fin 5, cat_percentage = PosInf\<rparr>]
   \<and> \<not> isFinite (cat_percentage (hd (revenueByCategoryOf exampleGift)))"
proof -
  have a: "concat (map items exampleGift) \<noteq> []"
    by (simp add: exampleGift_def)
  have b: "sumTotalAmount exampleGift = Fin 0"
    by (simp add: exampleGift_def sumTotalAmount_def fl_def)
  have fl5: "fl 5 = Fin 5"
    by (rule fl_whole) simp_all
  have c: "revenueByCategoryOf exampleGift =
       [\<lparr>cat_category = ''Uncategorized'', cat_revenue = Fin 5, cat_percentage = PosInf\<rparr>]"
    by (simp add: revenueByCategoryOf_def categoryRevenue_def exampleGift_def exampleItem_def
        addCategoryRevenue_def categoryOf_def sumTotalAmount_def fl5 fl_def [of 0])
  show ?thesis
    using C4_category_percentage_unguarded [OF a b] a b c by simp
qed

section \<open>Top products\<close>










lemma keys_map_set:
  "map fst (map_set m k v) = (if k \<in> set (map fst m) then map fst m else map fst m @ [k])"
  by (induction m k v rule: map_set.induct) auto

lemma distinct_map_set: "distinct (map fst m) \<Longrightarrow> distinct (map fst (map_set m k v))"
  by (simp add: keys_map_set)























section \<open>The comparison object\<close>

text \<open>
  C10. In every successful response the \<open>sales\<close> and \<open>orders\<close> fields of the previous
  period comparison are equal: both are the percentage change of the order count between
  the previous and the current window.
\<close>

theorem C10_sales_is_orders:
  assumes "GET parse now db req = Ok r"
  shows "sales (previousPeriodComparison (metrics r)) = orders (previousPeriodComparison (metrics r))
    \<and> (\<exists>dr. resolveDateRange parse now (searchParams req ''timeframe'')
               (searchParams req ''start'') (searchParams req ''end'') = Some dr
          \<and> orders (previousPeriodComparison (metrics r)) =
              ordersChange (length (findMany db (start dr) (end' dr)))
                (length (findMany db (start (previous dr)) (end' (previous dr)))))"
  using assms
  by (auto simp add: GET_def Let_def metricsOf_def split: if_splits option.splits)

theorem C10_sales_is_orders_witness:
  "\<exists>r. GET exampleParse 1710506096789 exampleSales
          (exampleRequest (Some ''Week'') (Some ''2024-01-11'') (Some ''2024-01-21'')) = Ok r
       \<and> sales (previousPeriodComparison (metrics r)) = Fin 100
       \<and> orders (previousPeriodComparison (metrics r)) = Fin 100"
proof -
  have dr: "resolveDateRange exampleParse 1710506096789 (Some ''Week'') (Some ''2024-01-11'') (Some ''2024-01-21'')
    = Some \<lparr>start = 1704931200000, end' = 1705795200000,
           previous = \<lparr>start = 1704067200000, end' = 1704931200000\<rparr>\<rparr>"
    by (simp add: resolveDateRange_def exampleParse_def)
  have "\<exists>r. GET exampleParse 1710506096789 exampleSales
          (exampleRequest (Some ''Week'') (Some ''2024-01-11'') (Some ''2024-01-21'')) = Ok r"
    by (simp add: GET_def exampleRequest_def dr Let_def)
  then obtain r where r: "GET exampleParse 1710506096789 exampleSales
          (exampleRequest (Some ''Week'') (Some ''2024-01-11'') (Some ''2024-01-21'')) = Ok r"
    by blast
  have fls: "fl 1 = Fin 1" "fl 100 = Fin 100"
    by (rule fl_whole; simp)+
  have oc: "ordersChange (length (findMany exampleSales 1704931200000 1705795200000))
                (length (findMany exampleSales 1704067200000 1704931200000)) = Fin 100"
    by (simp add: findMany_def exampleSales_def ordersChange_def js_sub_def fls)
  show ?thesis
    using C10_sales_is_orders [OF r] r dr oc by (auto simp add: exampleRequest_def)
qed

section \<open>Buckets of the named timeframes\<close>

lemma at_most_one_match:
  assumes "distinct (map key (map timestamp bs))"
  shows "length (filter (\<lambda>p. k = key (timestamp p)) bs) \<le> 1"
  using assms
proof (induction bs)
  case Nil
  then show ?case by simp
next
  case (Cons b bs)
  show ?case
  proof (cases "k = key (timestamp b)")
    case True
    with Cons.prems have "\<forall>p \<in> set bs. k \<noteq> key (timestamp p)" by auto
    then have "filter (\<lambda>p. k = key (timestamp p)) bs = []" by (simp add: filter_empty_conv)
    with True show ?thesis by simp
  next
    case False
    with Cons show ?thesis by simp
  qed
qed

lemma sorted_wrt_map_upto:
  fixes f :: "int \<Rightarrow> int"
  assumes "\<And>i j. a \<le> i \<Longrightarrow> i < j \<Longrightarrow> j \<le> b \<Longrightarrow> f i < f j"
  shows "sorted_wrt (<) (map f [a..b])"
proof -
  have "sorted_wrt (\<lambda>i j. f i < f j) [a..b]"
    unfolding sorted_wrt_iff_nth_less
  proof (intro allI impI)
    fix i j :: nat
    assume ij: "i < j" and j: "j < length [a..b]"
    then have "a + int j \<le> b" "a + int i \<le> b" by simp_all
    then have "[a..b] ! i = a + int i" "[a..b] ! j = a + int j" by simp_all
    with ij \<open>a + int j \<le> b\<close> show "f ([a..b] ! i) < f ([a..b] ! j)"
      by (simp add: assms)
  qed
  then show ?thesis by (simp add: sorted_wrt_map)
qed

lemma distinct_map_upto:
  fixes f :: "int \<Rightarrow> int"
  assumes "\<And>i j. a \<le> i \<Longrightarrow> i < j \<Longrightarrow> j \<le> b \<Longrightarrow> f i < f j"
  shows "distinct (map f [a..b])"
  using sorted_wrt_map_upto [of a b f] assms by (simp add: strict_sorted_iff)

lemma setHours_eq: "setHours s i = dayNumber s * msPerDay + i * msPerHour"
  using date_decompose(1) [of s] by (simp add: setHours_def)

lemma getHours_setHours:
  assumes "0 \<le> i" and "i \<le> 23"
  shows "getHours (setHours s i) = i"
proof -
  have r: "0 \<le> i * msPerHour" "i * msPerHour < msPerDay"
    using assms by (simp_all add: msPerHour_def msPerDay_def)
  have "timeWithinDay (setHours s i) = i * msPerHour"
    unfolding setHours_eq by (rule dayNumber_compose(2) [OF r])
  then show ?thesis by (simp add: getHours_def msPerHour_def)
qed

lemma setHours_less: "i < j \<Longrightarrow> setHours s i < setHours s j"
  by (simp add: setHours_def msPerHour_def)

lemma timestamps_hourlyPoints: "map timestamp (hourlyPoints s) = map (setHours s) [0..23]"
  by (simp add: hourlyPoints_def comp_def)

lemma hours_hourlyPoints: "map getHours (map timestamp (hourlyPoints s)) = [0..23]"
proof -
  have "map getHours (map (setHours s) [0..23]) = map (\<lambda>i. i) [0..23]"
    unfolding map_map by (rule map_cong) (simp_all add: getHours_setHours)
  then show ?thesis by (simp add: timestamps_hourlyPoints)
qed

lemma names_hourlyPoints:
  "map name (hourlyPoints s) =
     [''0:00'', ''1:00'', ''2:00'', ''3:00'', ''4:00'', ''5:00'', ''6:00'', ''7:00'',
      ''8:00'', ''9:00'', ''10:00'', ''11:00'', ''12:00'', ''13:00'', ''14:00'', ''15:00'',
      ''16:00'', ''17:00'', ''18:00'', ''19:00'', ''20:00'', ''21:00'', ''22:00'', ''23:00'']"
  by (simp add: hourlyPoints_list toString_def toString_nat.simps)

lemma today_points:
  "generateTrendDataPoints now (Some ''Today'') dr = hourlyPoints (start dr)"
  by (simp add: generateTrendDataPoints_def)

lemma today_exclusive:
  "length (filter (\<lambda>p. isMatch (Some ''Today'') dr t (timestamp p))
     (generateTrendDataPoints now (Some ''Today'') dr)) \<le> 1"
proof -
  have "distinct (map getHours (map timestamp (hourlyPoints (start dr))))"
    unfolding hours_hourlyPoints by simp
  then have "length (filter (\<lambda>p. getHours t = getHours (timestamp p)) (hourlyPoints (start dr))) \<le> 1"
    by (rule at_most_one_match)
  then show ?thesis by (simp add: today_points isMatch_def)
qed

lemma today_increasing:
  "sorted_wrt (<) (map timestamp (generateTrendDataPoints now (Some ''Today'') dr))"
  unfolding today_points timestamps_hourlyPoints
  by (rule sorted_wrt_map_upto) (rule setHours_less)

lemma startOfDay_eq: "startOfDay t = dayNumber t * msPerDay"
  using date_decompose(1) [of t] by (simp add: startOfDay_def)

lemma startOfDay_day_start: "startOfDay (n * msPerDay) = n * msPerDay"
  using dayNumber_compose(1) [of 0 n] by (simp add: startOfDay_eq msPerDay_def)

lemma eachDayOfInterval_forward:
  assumes "s \<le> e"
  shows "eachDayOfInterval s e =
           map (\<lambda>k. (dayNumber s + k) * msPerDay) [0..dayNumber e - dayNumber s]"
  using assms by (simp add: eachDayOfInterval_def Let_def startOfDay_eq algebra_simps)

lemma eachDayOfInterval_backward:
  assumes "e < s"
  shows "eachDayOfInterval s e =
           rev (map (\<lambda>k. (dayNumber e + k) * msPerDay) [0..dayNumber s - dayNumber e])"
  using assms by (simp add: eachDayOfInterval_def Let_def startOfDay_eq algebra_simps)

lemma day_starts_increasing:
  "sorted_wrt (<) (map (\<lambda>k. (n + k) * msPerDay) [a..b])"
  by (rule sorted_wrt_map_upto) (simp add: msPerDay_def)

lemma startOfDay_day_starts:
  "map startOfDay (map (\<lambda>k. (n + k) * msPerDay) [a..b]) = map (\<lambda>k. (n + k) * msPerDay) [a..b]"
  unfolding map_map by (rule map_cong) (simp_all add: startOfDay_day_start)

lemma eachDayOfInterval_distinct_days:
  "distinct (map startOfDay (eachDayOfInterval s e))"
proof (cases "s \<le> e")
  case True
  have "distinct (map (\<lambda>k. (dayNumber s + k) * msPerDay) [0..dayNumber e - dayNumber s])"
    using day_starts_increasing [of "dayNumber s" 0 "dayNumber e - dayNumber s"]
    by (simp add: strict_sorted_iff)
  then show ?thesis
    unfolding eachDayOfInterval_forward [OF True] startOfDay_day_starts .
next
  case False
  then have b: "e < s" by simp
  have "distinct (map (\<lambda>k. (dayNumber e + k) * msPerDay) [0..dayNumber s - dayNumber e])"
    using day_starts_increasing [of "dayNumber e" 0 "dayNumber s - dayNumber e"]
    by (simp add: strict_sorted_iff)
  then show ?thesis
    unfolding eachDayOfInterval_backward [OF b] rev_map [symmetric] startOfDay_day_starts
    by simp
qed

lemma week_points:
  "generateTrendDataPoints now (Some ''Week'') dr =
     map (\<lambda>d. \<lparr>name = format d ''EEE'', timestamp = d, value' = Fin 0\<rparr>)
       (eachDayOfInterval (start dr) (end' dr))"
  by (simp add: generateTrendDataPoints_def)

lemma week_timestamps:
  "map timestamp (generateTrendDataPoints now (Some ''Week'') dr) =
     eachDayOfInterval (start dr) (end' dr)"
  by (simp add: week_points comp_def)

lemma week_exclusive:
  "length (filter (\<lambda>p. isMatch (Some ''Week'') dr t (timestamp p))
     (generateTrendDataPoints now (Some ''Week'') dr)) \<le> 1"
proof -
  have "distinct (map startOfDay (map timestamp (generateTrendDataPoints now (Some ''Week'') dr)))"
    unfolding week_timestamps by (rule eachDayOfInterval_distinct_days)
  then have "length (filter (\<lambda>p. startOfDay t = startOfDay (timestamp p))
      (generateTrendDataPoints now (Some ''Week'') dr)) \<le> 1"
    by (rule at_most_one_match)
  then show ?thesis by (simp add: isMatch_def isSameDay_def)
qed

lemma week_increasing:
  assumes "start dr \<le> end' dr"
  shows "sorted_wrt (<) (map timestamp (generateTrendDataPoints now (Some ''Week'') dr))"
  unfolding week_timestamps eachDayOfInterval_forward [OF assms]
  by (rule day_starts_increasing)

lemma dayNumber_mono: "a \<le> b \<Longrightarrow> dayNumber a \<le> dayNumber b"
  by (simp add: dayNumber_def msPerDay_def zdiv_mono1)

lemma week_length:
  assumes "start dr \<le> end' dr"
  shows "length (generateTrendDataPoints now (Some ''Week'') dr) =
           nat (dayNumber (end' dr) - dayNumber (start dr) + 1)"
  by (simp add: week_points eachDayOfInterval_forward [OF assms])

lemma getDay_range: "0 \<le> getDay t" "getDay t \<le> 6"
  by (simp_all add: getDay_def)

lemma week_window:
  "dayNumber (startOfWeek now) = dayNumber now - getDay now"
  "dayNumber (endOfWeek now) = dayNumber now - getDay now + 6"
  "startOfWeek now \<le> endOfWeek now"
proof -
  have "startOfWeek now = (dayNumber now - getDay now) * msPerDay + 0"
    by (simp add: startOfWeek_def startOfDay_eq algebra_simps)
  then show "dayNumber (startOfWeek now) = dayNumber now - getDay now"
    using dayNumber_compose(1) [of 0 "dayNumber now - getDay now"] by (simp add: msPerDay_def)
  have "endOfWeek now = (dayNumber now - getDay now + 6) * msPerDay + (msPerDay - 1)"
    by (simp add: endOfWeek_def startOfDay_eq algebra_simps)
  then show "dayNumber (endOfWeek now) = dayNumber now - getDay now + 6"
    using dayNumber_compose(1) [of "msPerDay - 1" "dayNumber now - getDay now + 6"]
    by (simp add: msPerDay_def)
  show "startOfWeek now \<le> endOfWeek now"
    by (simp add: startOfWeek_def endOfWeek_def msPerDay_def)
qed

lemma week_resolved_length:
  "length (generateTrendDataPoints now (Some ''Week'') (getDateRange now' ''Week'')) = 7"
proof -
  have w: "start (getDateRange now' ''Week'') = startOfWeek now'"
    "end' (getDateRange now' ''Week'') = endOfWeek now'"
    by (simp_all add: getDateRange_def)
  have "start (getDateRange now' ''Week'') \<le> end' (getDateRange now' ''Week'')"
    unfolding w by (rule week_window(3))
  then show ?thesis
    by (simp add: week_length w week_window)
qed

lemma month_points:
  "generateTrendDataPoints now (Some ''Month'') dr =
     map (\<lambda>i. \<lparr>name = format (addMonths (subMonths (endOfMonth now) 11) i) ''MMM'',
                 timestamp = addMonths (subMonths (endOfMonth now) 11) i, value' = Fin 0\<rparr>) [0..11]"
  by (simp add: generateTrendDataPoints_def Let_def)

lemma month_timestamps:
  "map timestamp (generateTrendDataPoints now (Some ''Month'') dr) =
     map (addMonths (subMonths (endOfMonth now) 11)) [0..11]"
  by (simp add: month_points comp_def)

lemma month_indices:
  "map monthIndex (map timestamp (generateTrendDataPoints now (Some ''Month'') dr)) =
     map (\<lambda>i. monthIndex (subMonths (endOfMonth now) 11) + i) [0..11]"
  unfolding month_timestamps map_map by (rule map_cong) (simp_all add: monthIndex_addMonths)

lemma month_exclusive:
  "length (filter (\<lambda>p. isMatch (Some ''Month'') dr t (timestamp p))
     (generateTrendDataPoints now (Some ''Month'') dr)) \<le> 1"
proof -
  have "distinct (map monthIndex (map timestamp (generateTrendDataPoints now (Some ''Month'') dr)))"
    unfolding month_indices by (rule distinct_map_upto) simp
  then have "length (filter (\<lambda>p. monthIndex t = monthIndex (timestamp p))
      (generateTrendDataPoints now (Some ''Month'') dr)) \<le> 1"
    by (rule at_most_one_match)
  then show ?thesis by (simp add: isMatch_def isSameMonth_monthIndex)
qed

lemma month_increasing:
  "sorted_wrt (<) (map timestamp (generateTrendDataPoints now (Some ''Month'') dr))"
  unfolding month_timestamps
proof (rule sorted_wrt_map_upto)
  fix i j :: int
  assume "i < j"
  then have "monthIndex (addMonths (subMonths (endOfMonth now) 11) i)
      < monthIndex (addMonths (subMonths (endOfMonth now) 11) j)"
    by (simp add: monthIndex_addMonths)
  then show "addMonths (subMonths (endOfMonth now) 11) i < addMonths (subMonths (endOfMonth now) 11) j"
    by (rule monthIndex_less_imp_less)
qed

lemma month_length: "length (generateTrendDataPoints now (Some ''Month'') dr) = 12"
  by (simp add: month_points)

lemma year_points:
  "generateTrendDataPoints now (Some ''Year'') dr =
     map (\<lambda>year. \<lparr>name = toString year, timestamp = newDate_year year, value' = Fin 0\<rparr>)
       (filter (\<lambda>year. year \<le> getFullYear (end' dr))
          (map (\<lambda>i. getFullYear (start dr) + i) [0..2]))"
  by (simp add: generateTrendDataPoints_def)

lemma year_length: "length (generateTrendDataPoints now (Some ''Year'') dr) \<le> 3"
proof -
  have "length (filter (\<lambda>year. year \<le> getFullYear (end' dr))
          (map (\<lambda>i. getFullYear (start dr) + i) [0..2]))
        \<le> length (map (\<lambda>i. getFullYear (start dr) + i) [0..2])"
    by (rule length_filter_le)
  then show ?thesis by (simp add: year_points)
qed

lemma getFullYear_newDate_year:
  "getFullYear (newDate_year year) = (if 0 \<le> year \<and> year \<le> 99 then 1900 + year else year)"
  by (simp add: newDate_year_def getFullYear_year_start)

lemma three_years: "map (\<lambda>i. y + i) [0..2] = [y, y + 1, y + 2]"
  by (simp add: upto_rec1)

lemma year_exclusive:
  "length (filter (\<lambda>p. isMatch (Some ''Year'') dr t (timestamp p))
     (generateTrendDataPoints now (Some ''Year'') dr)) \<le> 1"
proof -
  define y where "y = getFullYear (start dr)"
  have "distinct (map (\<lambda>year. if 0 \<le> year \<and> year \<le> 99 then 1900 + year else year) [y, y + 1, y + 2])"
    by simp
  then have "distinct (map (\<lambda>year. if 0 \<le> year \<and> year \<le> 99 then 1900 + year else year)
      (filter (\<lambda>year. year \<le> getFullYear (end' dr)) [y, y + 1, y + 2]))"
    by (rule distinct_map_filter)
  then have "distinct (map getFullYear (map timestamp (generateTrendDataPoints now (Some ''Year'') dr)))"
    by (simp add: year_points three_years comp_def getFullYear_newDate_year y_def)
  then have "length (filter (\<lambda>p. getFullYear t = getFullYear (timestamp p))
      (generateTrendDataPoints now (Some ''Year'') dr)) \<le> 1"
    by (rule at_most_one_match)
  then show ?thesis by (simp add: isMatch_def)
qed

lemma year_increasing:
  assumes "100 \<le> getFullYear (start dr)"
  shows "sorted_wrt (<) (map timestamp (generateTrendDataPoints now (Some ''Year'') dr))"
proof -
  define y where "y = getFullYear (start dr)"
  have y: "100 \<le> y" using assms by (simp add: y_def)
  have "sorted_wrt (<) (map newDate_year [y, y + 1, y + 2])"
    using y by (simp add: newDate_year_def year_start_less)
  then have "sorted_wrt (<) (filter (\<lambda>t. getFullYear t \<le> getFullYear (end' dr)) (map newDate_year [y, y + 1, y + 2]))"
    by (rule sorted_wrt_filter)
  moreover have "map timestamp (generateTrendDataPoints now (Some ''Year'') dr) =
        filter (\<lambda>t. getFullYear t \<le> getFullYear (end' dr)) (map newDate_year [y, y + 1, y + 2])"
    using y by (simp add: year_points three_years comp_def y_def [symmetric] getFullYear_newDate_year)
  ultimately show ?thesis by simp
qed

text \<open>
  C1 (as amended). For every window and every clock reading: Today gives 24 hourly
  buckets labelled \<open>0:00\<close> to \<open>23:00\<close>, Month gives exactly 12 buckets and Year at most 3.
  Week gives one bucket per calendar day of the window (for a window whose start is not
  after its end); that is 7 for the calendar week \<open>getDateRange\<close> derives for Week. For each
  of the four timeframes no transaction timestamp matches two buckets. The bucket
  timestamps are strictly increasing for Today and Month, for Week when the window's start
  is not after its end (as in the week of \<open>getDateRange\<close>), and for Year when the window starts in
  the year 100 or later (\<open>new Date(year, 0, 1)\<close> reads a year below 100 as 1900 + year).
\<close>

theorem C1_buckets:
  "length (generateTrendDataPoints now (Some ''Today'') dr) = 24
   \<and> map name (generateTrendDataPoints now (Some ''Today'') dr) =
       [''0:00'', ''1:00'', ''2:00'', ''3:00'', ''4:00'', ''5:00'', ''6:00'', ''7:00'',
        ''8:00'', ''9:00'', ''10:00'', ''11:00'', ''12:00'', ''13:00'', ''14:00'', ''15:00'',
        ''16:00'', ''17:00'', ''18:00'', ''19:00'', ''20:00'', ''21:00'', ''22:00'', ''23:00'']
   \<and> length (generateTrendDataPoints now (Some ''Week'') (getDateRange now ''Week'')) = 7
   \<and> (start dr \<le> end' dr \<longrightarrow>
        length (generateTrendDataPoints now (Some ''Week'') dr) =
          nat (dayNumber (end' dr) - dayNumber (start dr) + 1))
   \<and> length (generateTrendDataPoints now (Some ''Month'') dr) = 12
   \<and> length (generateTrendDataPoints now (Some ''Year'') dr) \<le> 3
   \<and> (\<forall>tf \<in> {''Today'', ''Week'', ''Month'', ''Year''}. \<forall>t.
        length (filter (\<lambda>p. isMatch (Some tf) dr t (timestamp p))
                  (generateTrendDataPoints now (Some tf) dr)) \<le> 1)
   \<and> sorted_wrt (<) (map timestamp (generateTrendDataPoints now (Some ''Today'') dr))
   \<and> sorted_wrt (<)
        (map timestamp (generateTrendDataPoints now (Some ''Week'') (getDateRange now ''Week'')))
   \<and> (start dr \<le> end' dr \<longrightarrow>
        sorted_wrt (<) (map timestamp (generateTrendDataPoints now (Some ''Week'') dr)))
   \<and> sorted_wrt (<) (map timestamp (generateTrendDataPoints now (Some ''Month'') dr))
   \<and> (100 \<le> getFullYear (start dr) \<longrightarrow>
        sorted_wrt (<) (map timestamp (generateTrendDataPoints now (Some ''Year'') dr)))"
proof -
  have today: "length (generateTrendDataPoints now (Some ''Today'') dr) = 24"
    by (simp add: today_points hourlyPoints_def)
  have names: "map name (generateTrendDataPoints now (Some ''Today'') dr) =
       [''0:00'', ''1:00'', ''2:00'', ''3:00'', ''4:00'', ''5:00'', ''6:00'', ''7:00'',
        ''8:00'', ''9:00'', ''10:00'', ''11:00'', ''12:00'', ''13:00'', ''14:00'', ''15:00'',
        ''16:00'', ''17:00'', ''18:00'', ''19:00'', ''20:00'', ''21:00'', ''22:00'', ''23:00'']"
    unfolding today_points by (rule names_hourlyPoints)
  have excl: "\<forall>tf \<in> {''Today'', ''Week'', ''Month'', ''Year''}. \<forall>t.
        length (filter (\<lambda>p. isMatch (Some tf) dr t (timestamp p))
                  (generateTrendDataPoints now (Some tf) dr)) \<le> 1"
    using today_exclusive week_exclusive month_exclusive year_exclusive by blast
  have wk: "start (getDateRange now ''Week'') \<le> end' (getDateRange now ''Week'')"
    using week_window(3) [of now] by (simp add: getDateRange_def)
  show ?thesis
    using today names week_resolved_length [of now now] week_length [of dr now]
      month_length [of now dr] year_length [of now dr] excl
      today_increasing [of now dr] week_increasing [OF wk, of now] week_increasing [of dr now]
      month_increasing [of now dr] year_increasing [of dr now]
    by blast
qed

theorem C1_buckets_witness:
  "start exampleWindow \<le> end' exampleWindow
   \<and> 100 \<le> getFullYear (start exampleWindow)
   \<and> ''Week'' \<in> {''Today'', ''Week'', ''Month'', ''Year''}
   \<and> length (generateTrendDataPoints 1710506096789 (Some ''Today'') exampleWindow) = 24
   \<and> length (generateTrendDataPoints 1710506096789 (Some ''Week'')
         (getDateRange 1710506096789 ''Week'')) = 7
   \<and> length (generateTrendDataPoints 1710506096789 (Some ''Week'') exampleWindow) = 11
   \<and> length (generateTrendDataPoints 1710506096789 (Some ''Month'') exampleWindow) = 12
   \<and> length (generateTrendDataPoints 1710506096789 (Some ''Year'') exampleWindow) \<le> 3
   \<and> length (filter (\<lambda>p. isMatch (Some ''Week'') exampleWindow 1705051800000 (timestamp p))
         (generateTrendDataPoints 1710506096789 (Some ''Week'') exampleWindow)) \<le> 1
   \<and> sorted_wrt (<)
        (map timestamp (generateTrendDataPoints 1710506096789 (Some ''Week'') exampleWindow))
   \<and> sorted_wrt (<)
        (map timestamp (generateTrendDataPoints 1710506096789 (Some ''Year'') exampleWindow))"
proof -
  have h1: "start exampleWindow \<le> end' exampleWindow"
    by (simp add: exampleWindow_def)
  have h2: "100 \<le> getFullYear (start exampleWindow)"
    by (simp add: exampleWindow_def getFullYear_def yearOfDay_def dayNumber_def msPerDay_def
        daysBeforeYear_def Let_def)
  have h3: "nat (dayNumber (end' exampleWindow) - dayNumber (start exampleWindow) + 1) = 11"
    by (simp add: exampleWindow_def dayNumber_def msPerDay_def)
  have h4: "''Week'' \<in> {''Today'', ''Week'', ''Month'', ''Year''}"
    by simp
  show ?thesis
    using C1_buckets [of 1710506096789 exampleWindow] h1 h2 h3 h4 by auto
qed

text \<open>
  The count of 7 for Week is a property of the window of \<open>getDateRange\<close>, not of the
  generator:
  a request with timeframe Week and an explicit range from 2024-01-11 to 2024-01-21 gets
  11 daily buckets. And for a window that starts in the year 99 the Year buckets are
  those of 1999, 100 and 101, in this order.
\<close>

theorem C1_week_count_counterexample:
  "length (generateTrendDataPoints 1710506096789 (Some ''Week'') exampleWindow) = 11
   \<and> is_Ok (GET exampleParse 1710506096789 exampleSales
        (exampleRequest (Some ''Week'') (Some ''2024-01-11'') (Some ''2024-01-21'')))
   \<and> length (salesTrend (body (GET exampleParse 1710506096789 exampleSales
        (exampleRequest (Some ''Week'') (Some ''2024-01-11'') (Some ''2024-01-21''))))) = 11
   \<and> getFullYear (start exampleYear99) = 99
   \<and> map timestamp (generateTrendDataPoints 1710506096789 (Some ''Year'') exampleYear99) =
       [915148800000, - 59011459200000, - 58979923200000]
   \<and> \<not> sorted_wrt (<)
        (map timestamp (generateTrendDataPoints 1710506096789 (Some ''Year'') exampleYear99))"
proof -
  have w: "start exampleWindow \<le> end' exampleWindow"
    by (simp add: exampleWindow_def)
  have n: "length (generateTrendDataPoints 1710506096789 (Some ''Week'') exampleWindow) = 11"
    unfolding week_length [OF w] by (simp add: exampleWindow_def dayNumber_def msPerDay_def)
  have dr: "resolveDateRange exampleParse 1710506096789 (Some ''Week'')
      (Some ''2024-01-11'') (Some ''2024-01-21'') = Some exampleWindow"
    by (simp add: resolveDateRange_def exampleParse_def exampleWindow_def)
  have len: "length (fillTrendPoints tf d ts ps) = length ps" for tf d ts ps
    unfolding fillTrendPoints_def by (induction ts arbitrary: ps) simp_all
  have g: "is_Ok (GET exampleParse 1710506096789 exampleSales
        (exampleRequest (Some ''Week'') (Some ''2024-01-11'') (Some ''2024-01-21'')))
   \<and> length (salesTrend (body (GET exampleParse 1710506096789 exampleSales
        (exampleRequest (Some ''Week'') (Some ''2024-01-11'') (Some ''2024-01-21''))))) = 11"
    using n by (simp add: GET_def exampleRequest_def dr Let_def salesTrendOf_def len)
  have y: "getFullYear (start exampleYear99) = 99"
    by code_simp
  have t: "map timestamp (generateTrendDataPoints 1710506096789 (Some ''Year'') exampleYear99) =
       [915148800000, - 59011459200000, - 58979923200000]"
    by code_simp
  have u: "\<not> sorted_wrt (<)
        (map timestamp (generateTrendDataPoints 1710506096789 (Some ''Year'') exampleYear99))"
    unfolding t by simp
  from n g y t u show ?thesis by blast
qed

section \<open>The Today scenario\<close>

lemma hourlyPoints_explicit:
  "hourlyPoints s =
       [\<lparr>name = ''0:00'', timestamp = setHours s 0, value' = Fin 0\<rparr>,
        \<lparr>name = ''1:00'', timestamp = setHours s 1, value' = Fin 0\<rparr>,
        \<lparr>name = ''2:00'', timestamp = setHours s 2, value' = Fin 0\<rparr>,
        \<lparr>name = ''3:00'', timestamp = setHours s 3, value' = Fin 0\<rparr>,
        \<lparr>name = ''4:00'', timestamp = setHours s 4, value' = Fin 0\<rparr>,
        \<lparr>name = ''5:00'', timestamp = setHours s 5, value' = Fin 0\<rparr>,
        \<lparr>name = ''6:00'', timestamp = setHours s 6, value' = Fin 0\<rparr>,
        \<lparr>name = ''7:00'', timestamp = setHours s 7, value' = Fin 0\<rparr>,
        \<lparr>name = ''8:00'', timestamp = setHours s 8, value' = Fin 0\<rparr>,
        \<lparr>name = ''9:00'', timestamp = setHours s 9, value' = Fin 0\<rparr>,
        \<lparr>name = ''10:00'', timestamp = setHours s 10, value' = Fin 0\<rparr>,
        \<lparr>name = ''11:00'', timestamp = setHours s 11, value' = Fin 0\<rparr>,
        \<lparr>name = ''12:00'', timestamp = setHours s 12, value' = Fin 0\<rparr>,
        \<lparr>name = ''13:00'', timestamp = setHours s 13, value' = Fin 0\<rparr>,
        \<lparr>name = ''14:00'', timestamp = setHours s 14, value' = Fin 0\<rparr>,
        \<lparr>name = ''15:00'', timestamp = setHours s 15, value' = Fin 0\<rparr>,
        \<lparr>name = ''16:00'', timestamp = setHours s 16, value' = Fin 0\<rparr>,
        \<lparr>name = ''17:00'', timestamp = setHours s 17, value' = Fin 0\<rparr>,
        \<lparr>name = ''18:00'', timestamp = setHours s 18, value' = Fin 0\<rparr>,
        \<lparr>name = ''19:00'', timestamp = setHours s 19, value' = Fin 0\<rparr>,
        \<lparr>name = ''20:00'', timestamp = setHours s 20, value' = Fin 0\<rparr>,
        \<lparr>name = ''21:00'', timestamp = setHours s 21, value' = Fin 0\<rparr>,
        \<lparr>name = ''22:00'', timestamp = setHours s 22, value' = Fin 0\<rparr>,
        \<lparr>name = ''23:00'', timestamp = setHours s 23, value' = Fin 0\<rparr>]"
  by (simp add: hourlyPoints_list toString_def toString_nat.simps)

lemma getHours_after_midnight:
  assumes "0 \<le> r" and "r < msPerDay"
  shows "getHours (startOfDay t + r) = r div msPerHour"
proof -
  have "timeWithinDay (dayNumber t * msPerDay + r) = r"
    by (rule dayNumber_compose(2) [OF assms])
  then show ?thesis by (simp add: getHours_def startOfDay_eq)
qed

lemma setHours_startOfDay: "setHours (startOfDay t) i = startOfDay t + i * msPerHour"
  using dayNumber_compose(2) [of 0 "dayNumber t"]
  by (simp add: setHours_def startOfDay_eq msPerDay_def)

lemma today_window:
  "start (getDateRange now ''Today'') = startOfDay now"
  "end' (getDateRange now ''Today'') = endOfDay now"
  "start (previous (getDateRange now ''Today'')) = startOfDay (subDays now 1)"
  "end' (previous (getDateRange now ''Today'')) = endOfDay (subDays now 1)"
  by (simp_all add: getDateRange_def)

lemma resolveDateRange_named:
  assumes "\<not> (truthy startDate \<and> truthy endDate)"
  shows "resolveDateRange parse now timeframe startDate endDate =
           Some (getDateRange now (if truthy timeframe then the timeframe else ''Today''))"
  using assms by (auto simp add: resolveDateRange_def)

text \<open>
  C7. With timeframe Today, no explicit range, and exactly two transactions in today's
  window, one at 09:15 with amount 100 and one at 09:45 with amount 50, the response is a
  success, the bucket named \<open>9:00\<close> has value 150 and every other bucket 0, the total
  revenue is 150, the order count 2 and the average order value 75.
\<close>

theorem C7_today_scenario:
  assumes "truthy (userId req)"
    and "searchParams req ''timeframe'' = Some ''Today''"
    and "\<not> (truthy (searchParams req ''start'') \<and> truthy (searchParams req ''end''))"
    and "findMany db (startOfDay now) (endOfDay now) = [t1, t2]"
    and "createdAt t1 = startOfDay now + 9 * msPerHour + 15 * 60000" and "totalAmount t1 = 100"
    and "createdAt t2 = startOfDay now + 9 * msPerHour + 45 * 60000" and "totalAmount t2 = 50"
  shows "is_Ok (GET parse now db req)
    \<and> salesTrend (body (GET parse now db req)) =
       [\<lparr>trend_name = ''0:00'', trend_value = Fin 0\<rparr>,
        \<lparr>trend_name = ''1:00'', trend_value = Fin 0\<rparr>,
        \<lparr>trend_name = ''2:00'', trend_value = Fin 0\<rparr>,
        \<lparr>trend_name = ''3:00'', trend_value = Fin 0\<rparr>,
        \<lparr>trend_name = ''4:00'', trend_value = Fin 0\<rparr>,
        \<lparr>trend_name = ''5:00'', trend_value = Fin 0\<rparr>,
        \<lparr>trend_name = ''6:00'', trend_value = Fin 0\<rparr>,
        \<lparr>trend_name = ''7:00'', trend_value = Fin 0\<rparr>,
        \<lparr>trend_name = ''8:00'', trend_value = Fin 0\<rparr>,
        \<lparr>trend_name = ''9:00'', trend_value = Fin 150\<rparr>,
        \<lparr>trend_name = ''10:00'', trend_value = Fin 0\<rparr>,
        \<lparr>trend_name = ''11:00'', trend_value = Fin 0\<rparr>,
        \<lparr>trend_name = ''12:00'', trend_value = Fin 0\<rparr>,
        \<lparr>trend_name = ''13:00'', trend_value = Fin 0\<rparr>,
        \<lparr>trend_name = ''14:00'', trend_value = Fin 0\<rparr>,
        \<lparr>trend_name = ''15:00'', trend_value = Fin 0\<rparr>,
        \<lparr>trend_name = ''16:00'', trend_value = Fin 0\<rparr>,
        \<lparr>trend_name = ''17:00'', trend_value = Fin 0\<rparr>,
        \<lparr>trend_name = ''18:00'', trend_value = Fin 0\<rparr>,
        \<lparr>trend_name = ''19:00'', trend_value = Fin 0\<rparr>,
        \<lparr>trend_name = ''20:00'', trend_value = Fin 0\<rparr>,
        \<lparr>trend_name = ''21:00'', trend_value = Fin 0\<rparr>,
        \<lparr>trend_name = ''22:00'', trend_value = Fin 0\<rparr>,
        \<lparr>trend_name = ''23:00'', trend_value = Fin 0\<rparr>]
    \<and> totalRevenue (metrics (body (GET parse now db req))) = Fin 150
    \<and> totalOrders (metrics (body (GET parse now db req))) = 2
    \<and> avgOrderValue (metrics (body (GET parse now db req))) = Fin 75"
proof -
  define dr where "dr = getDateRange now ''Today''"
  define prev where "prev = findMany db (start (previous dr)) (end' (previous dr))"
  have res: "resolveDateRange parse now (Some ''Today'')
      (searchParams req ''start'') (searchParams req ''end'') = Some dr"
    by (simp add: resolveDateRange_named [OF assms(3)] dr_def)
  have cur: "findMany db (start dr) (end' dr) = [t1, t2]"
    using assms(4) by (simp add: dr_def today_window)
  have get: "GET parse now db req =
      Ok \<lparr>metrics = metricsOf [t1, t2] prev,
          salesTrend = salesTrendOf now (Some ''Today'') dr [t1, t2],
          topProducts = topProductsOf [t1, t2],
          revenueByCategory = revenueByCategoryOf [t1, t2]\<rparr>"
    using assms(1,2) by (simp add: GET_def res cur Let_def prev_def)
  have h1: "getHours (createdAt t1) = 9"
    unfolding assms(5) add.assoc
    by (subst getHours_after_midnight) (simp_all add: msPerHour_def msPerDay_def)
  have h2: "getHours (createdAt t2) = 9"
    unfolding assms(7) add.assoc
    by (subst getHours_after_midnight) (simp_all add: msPerHour_def msPerDay_def)
  have m: "isMatch (Some ''Today'') dr (createdAt t) (setHours (start dr) i) =
      (getHours (createdAt t) = i)" if "0 \<le> i" "i \<le> 23" for t i
    using that by (simp add: isMatch_def getHours_setHours)
  have fls: "fl 100 = Fin 100" "fl 150 = Fin 150" "fl 75 = Fin 75"
    by (rule fl_whole; simp)+
  have trend: "salesTrendOf now (Some ''Today'') dr [t1, t2] =
       [\<lparr>trend_name = ''0:00'', trend_value = Fin 0\<rparr>,
        \<lparr>trend_name = ''1:00'', trend_value = Fin 0\<rparr>,
        \<lparr>trend_name = ''2:00'', trend_value = Fin 0\<rparr>,
        \<lparr>trend_name = ''3:00'', trend_value = Fin 0\<rparr>,
        \<lparr>trend_name = ''4:00'', trend_value = Fin 0\<rparr>,
        \<lparr>trend_name = ''5:00'', trend_value = Fin 0\<rparr>,
        \<lparr>trend_name = ''6:00'', trend_value = Fin 0\<rparr>,
        \<lparr>trend_name = ''7:00'', trend_value = Fin 0\<rparr>,
        \<lparr>trend_name = ''8:00'', trend_value = Fin 0\<rparr>,
        \<lparr>trend_name = ''9:00'', trend_value = Fin 150\<rparr>,
        \<lparr>trend_name = ''10:00'', trend_value = Fin 0\<rparr>,
        \<lparr>trend_name = ''11:00'', trend_value = Fin 0\<rparr>,
        \<lparr>trend_name = ''12:00'', trend_value = Fin 0\<rparr>,
        \<lparr>trend_name = ''13:00'', trend_value = Fin 0\<rparr>,
        \<lparr>trend_name = ''14:00'', trend_value = Fin 0\<rparr>,
        \<lparr>trend_name = ''15:00'', trend_value = Fin 0\<rparr>,
        \<lparr>trend_name = ''16:00'', trend_value = Fin 0\<rparr>,
        \<lparr>trend_name = ''17:00'', trend_value = Fin 0\<rparr>,
        \<lparr>trend_name = ''18:00'', trend_value = Fin 0\<rparr>,
        \<lparr>trend_name = ''19:00'', trend_value = Fin 0\<rparr>,
        \<lparr>trend_name = ''20:00'', trend_value = Fin 0\<rparr>,
        \<lparr>trend_name = ''21:00'', trend_value = Fin 0\<rparr>,
        \<lparr>trend_name = ''22:00'', trend_value = Fin 0\<rparr>,
        \<lparr>trend_name = ''23:00'', trend_value = Fin 0\<rparr>]"
    by (simp add: salesTrendOf_def today_points hourlyPoints_explicit fillTrendPoints_def
        fillPoint_def orZero_def fls m h1 h2 assms(6,8))
  have tot: "totalRevenue (metricsOf [t1, t2] prev) = Fin 150"
    "totalOrders (metricsOf [t1, t2] prev) = 2"
    "avgOrderValue (metricsOf [t1, t2] prev) = Fin 75"
    by (simp_all add: metricsOf_def Let_def sumTotalAmount_def averageValue_def fls assms(6,8))
  show ?thesis
    by (simp add: get trend tot)
qed

theorem C7_today_scenario_witness:
  "truthy (userId (exampleRequest (Some ''Today'') None None))
   \<and> findMany exampleMorning (startOfDay 1710506096789) (endOfDay 1710506096789) = exampleMorning
   \<and> is_Ok (GET exampleParse 1710506096789 exampleMorning (exampleRequest (Some ''Today'') None None))
   \<and> salesTrend (body (GET exampleParse 1710506096789 exampleMorning
        (exampleRequest (Some ''Today'') None None))) ! 9 =
        \<lparr>trend_name = ''9:00'', trend_value = Fin 150\<rparr>
   \<and> totalRevenue (metrics (body (GET exampleParse 1710506096789 exampleMorning
        (exampleRequest (Some ''Today'') None None)))) = Fin 150
   \<and> totalOrders (metrics (body (GET exampleParse 1710506096789 exampleMorning
        (exampleRequest (Some ''Today'') None None)))) = 2
   \<and> avgOrderValue (metrics (body (GET exampleParse 1710506096789 exampleMorning
        (exampleRequest (Some ''Today'') None None)))) = Fin 75"
proof -
  let ?req = "exampleRequest (Some ''Today'') None None"
  let ?t1 = "\<lparr>totalAmount = 100, createdAt = 1710494100000, items = []\<rparr>"
  let ?t2 = "\<lparr>totalAmount = 50, createdAt = 1710495900000, items = []\<rparr>"
  have a1: "truthy (userId ?req)" by (simp add: exampleRequest_def)
  have a2: "searchParams ?req ''timeframe'' = Some ''Today''" by (simp add: exampleRequest_def)
  have a3: "\<not> (truthy (searchParams ?req ''start'') \<and> truthy (searchParams ?req ''end''))"
    by (simp add: exampleRequest_def)
  have sod: "startOfDay 1710506096789 = 1710460800000"
    by (simp add: startOfDay_def timeWithinDay_def msPerDay_def)
  have a4: "findMany exampleMorning (startOfDay 1710506096789) (endOfDay 1710506096789) = [?t1, ?t2]"
    by (simp add: findMany_def exampleMorning_def endOfDay_def sod msPerDay_def)
  have a5: "createdAt ?t1 = startOfDay 1710506096789 + 9 * msPerHour + 15 * 60000"
    by (simp add: sod msPerHour_def)
  have a7: "createdAt ?t2 = startOfDay 1710506096789 + 9 * msPerHour + 45 * 60000"
    by (simp add: sod msPerHour_def)
  have a6: "totalAmount ?t1 = 100" and a8: "totalAmount ?t2 = 50" by simp_all
  show ?thesis
    using C7_today_scenario [OF a1 a2 a3 a4 a5 a6 a7 a8, of exampleParse] a1 a4
    by (simp add: exampleMorning_def)
qed

section \<open>Custom ranges\<close>

lemma daysDiff_of_day_span:
  assumes "dayNumber (end' dr) - dayNumber (start dr) = n"
  shows "n - 1 < daysDiff dr" and "daysDiff dr \<le> n + 1"
proof -
  define x where "x = start dr - end' dr"
  define q where "q = x div msPerDay"
  have q: "msPerDay * q \<le> x" "x < msPerDay * q + msPerDay"
    using div_bounds [of msPerDay x] by (simp_all add: q_def msPerDay_def)
  have s: "start dr = dayNumber (start dr) * msPerDay + timeWithinDay (start dr)"
    "0 \<le> timeWithinDay (start dr)" "timeWithinDay (start dr) < msPerDay"
    by (rule date_decompose)+
  have e: "end' dr = dayNumber (end' dr) * msPerDay + timeWithinDay (end' dr)"
    "0 \<le> timeWithinDay (end' dr)" "timeWithinDay (end' dr) < msPerDay"
    by (rule date_decompose)+
  have x: "x = timeWithinDay (start dr) - timeWithinDay (end' dr) - n * msPerDay"
    using s(1) e(1) assms by (simp add: x_def algebra_simps)
  have "msPerDay * q < msPerDay * (1 - n)"
    using q(1) x s(3) e(2) by (simp add: algebra_simps)
  then have u: "q < 1 - n" by (simp add: msPerDay_def)
  have "msPerDay * (- n - 2) < msPerDay * q"
    using q(2) x s(2) e(3) by (simp add: algebra_simps)
  then have l: "- n - 2 < q" by (simp add: msPerDay_def)
  have d: "daysDiff dr = - q"
    by (simp add: daysDiff_def ceil_div_def q_def x_def)
  show "n - 1 < daysDiff dr" using u by (simp add: d)
  show "daysDiff dr \<le> n + 1" using l by (simp add: d)
qed

lemma custom_daily_points:
  assumes "\<not> truthy timeframe"
    and "dayNumber (end' dr) - dayNumber (start dr) = n" and "2 \<le> n" and "n \<le> 30"
  shows "generateTrendDataPoints now timeframe dr =
           map (\<lambda>k. \<lparr>name = format (startOfDay (start dr) + k * msPerDay) ''MMM dd'',
                       timestamp = startOfDay (start dr) + k * msPerDay, value' = Fin 0\<rparr>) [0..n]"
    and "isMatch timeframe dr a b = isSameDay a b"
proof -
  have d: "\<not> daysDiff dr \<le> 1" "daysDiff dr \<le> 31"
    using daysDiff_of_day_span [OF assms(2)] assms(3,4) by simp_all
  have "dayNumber (start dr) < dayNumber (end' dr)"
    using assms(2,3) by simp
  then have "start dr < end' dr" by (rule dayNumber_less_imp_less)
  then have "eachDayOfInterval (start dr) (end' dr) =
      map (\<lambda>k. startOfDay (start dr) + k * msPerDay) [0..n]"
    using assms(2) by (simp add: eachDayOfInterval_def Let_def)
  then show "generateTrendDataPoints now timeframe dr =
           map (\<lambda>k. \<lparr>name = format (startOfDay (start dr) + k * msPerDay) ''MMM dd'',
                       timestamp = startOfDay (start dr) + k * msPerDay, value' = Fin 0\<rparr>) [0..n]"
    using assms(1) d by (simp add: generateTrendDataPoints_def comp_def)
  show "isMatch timeframe dr a b = isSameDay a b"
    using assms(1) d by (simp add: isMatch_def)
qed

text \<open>
  A window of exactly ten times 24 hours reaches into an eleventh calendar day and gets
  eleven buckets.
\<close>

lemma custom_range_of_240_hours:
  assumes "\<not> truthy timeframe" and "end' dr = start dr + 10 * msPerDay"
  shows "length (generateTrendDataPoints now timeframe dr) = 11"
    and "daysDiff dr = 10"
proof -
  have "dayNumber (end' dr) = dayNumber (start dr) + 10"
    unfolding assms(2) by (simp add: dayNumber_def msPerDay_def)
  then have "dayNumber (end' dr) - dayNumber (start dr) = 10" by simp
  from custom_daily_points(1) [OF assms(1) this] show "length (generateTrendDataPoints now timeframe dr) = 11"
    by simp
  show "daysDiff dr = 10"
    by (simp add: daysDiff_def ceil_div_def assms(2) msPerDay_def)
qed

text \<open>
  C8 (as amended). For a custom range (no timeframe) whose length rounds up to 10 days
  (more than 9 and at most 10 times 24 hours), or which covers ten calendar days from
  the day of its start to the day of its end, the generator takes the daily branch: it
  returns one bucket for each calendar day from the day of the start to the day of the
  end, at the start of that day and labelled with \<open>MMM dd\<close>, and the fill loop matches by
  calendar day. These are 10 or 11 buckets: 10 when the end lies nine calendar days
  after the start, 11 when it lies ten calendar days after it, as it does for a window
  of exactly ten times 24 hours.
\<close>

theorem C8_custom_ten_days:
  assumes "\<not> truthy timeframe"
    and "daysDiff dr = 10 \<or> dayNumber (end' dr) - dayNumber (start dr) = 9"
  shows "generateTrendDataPoints now timeframe dr =
           map (\<lambda>k. \<lparr>name = format (startOfDay (start dr) + k * msPerDay) ''MMM dd'',
                       timestamp = startOfDay (start dr) + k * msPerDay, value' = Fin 0\<rparr>)
             [0..dayNumber (end' dr) - dayNumber (start dr)]
         \<and> (\<forall>a b. isMatch timeframe dr a b = isSameDay a b)
         \<and> int (length (generateTrendDataPoints now timeframe dr)) =
             dayNumber (end' dr) - dayNumber (start dr) + 1
         \<and> (length (generateTrendDataPoints now timeframe dr) = 10
            \<or> length (generateTrendDataPoints now timeframe dr) = 11)
         \<and> (dayNumber (end' dr) - dayNumber (start dr) = 9
            \<longrightarrow> length (generateTrendDataPoints now timeframe dr) = 10)
         \<and> (end' dr = start dr + 10 * msPerDay
            \<longrightarrow> length (generateTrendDataPoints now timeframe dr) = 11)"
proof -
  define n where "n = dayNumber (end' dr) - dayNumber (start dr)"
  have n: "dayNumber (end' dr) - dayNumber (start dr) = n" by (simp add: n_def)
  have r: "n = 9 \<or> n = 10"
  proof (cases "n = 9")
    case True
    then show ?thesis by simp
  next
    case False
    then have "daysDiff dr = 10" using assms(2) n by simp
    then have "n - 1 < 10" "10 \<le> n + 1"
      using daysDiff_of_day_span [OF n] by simp_all
    then show ?thesis by linarith
  qed
  then have b: "2 \<le> n" "n \<le> 30" by auto
  have p: "generateTrendDataPoints now timeframe dr =
           map (\<lambda>k. \<lparr>name = format (startOfDay (start dr) + k * msPerDay) ''MMM dd'',
                       timestamp = startOfDay (start dr) + k * msPerDay, value' = Fin 0\<rparr>) [0..n]"
    using assms(1) n b by (rule custom_daily_points(1))
  have m: "\<forall>a b. isMatch timeframe dr a b = isSameDay a b"
    using custom_daily_points(2) [OF assms(1) n b] by simp
  have l: "int (length (generateTrendDataPoints now timeframe dr)) = n + 1"
    using b by (simp add: p)
  have l2: "length (generateTrendDataPoints now timeframe dr) = 10
            \<or> length (generateTrendDataPoints now timeframe dr) = 11"
    using l r by auto
  have l3: "n = 9 \<longrightarrow> length (generateTrendDataPoints now timeframe dr) = 10"
    using l by auto
  have l4: "end' dr = start dr + 10 * msPerDay
            \<longrightarrow> length (generateTrendDataPoints now timeframe dr) = 11"
    using custom_range_of_240_hours(1) [OF assms(1)] by blast
  from p m l l2 l3 l4 show ?thesis by (simp only: n_def) blast
qed

theorem C8_custom_ten_days_witness:
  "\<not> truthy None
   \<and> daysDiff exampleTenDays = 10
   \<and> dayNumber (end' exampleTenDays) - dayNumber (start exampleTenDays) = 9
   \<and> length (generateTrendDataPoints 1710506096789 None exampleTenDays) = 10
   \<and> map name (generateTrendDataPoints 1710506096789 None exampleTenDays) =
        [''Jan 11'', ''Jan 12'', ''Jan 13'', ''Jan 14'', ''Jan 15'', ''Jan 16'', ''Jan 17'',
         ''Jan 18'', ''Jan 19'', ''Jan 20'']
   \<and> map timestamp (generateTrendDataPoints 1710506096789 None exampleTenDays) =
        [1704931200000, 1705017600000, 1705104000000, 1705190400000, 1705276800000,
         1705363200000, 1705449600000, 1705536000000, 1705622400000, 1705708800000]"
proof -
  have h1: "\<not> truthy None" by simp
  have h2: "dayNumber (end' exampleTenDays) - dayNumber (start exampleTenDays) = 9"
    by (simp add: exampleTenDays_def dayNumber_def msPerDay_def)
  have h3: "daysDiff exampleTenDays = 10"
    by (simp add: exampleTenDays_def daysDiff_def ceil_div_def msPerDay_def)
  have s: "start exampleTenDays = 1704931200000" by (simp add: exampleTenDays_def)
  have n: "map (\<lambda>k. format (startOfDay 1704931200000 + k * msPerDay) ''MMM dd'') [0..9] =
        [''Jan 11'', ''Jan 12'', ''Jan 13'', ''Jan 14'', ''Jan 15'', ''Jan 16'', ''Jan 17'',
         ''Jan 18'', ''Jan 19'', ''Jan 20'']"
    by code_simp
  have t: "map (\<lambda>k. startOfDay 1704931200000 + k * msPerDay) [0..9] =
        [1704931200000, 1705017600000, 1705104000000, 1705190400000, 1705276800000,
         1705363200000, 1705449600000, 1705536000000, 1705622400000, 1705708800000]"
    by code_simp
  have "daysDiff exampleTenDays = 10
      \<or> dayNumber (end' exampleTenDays) - dayNumber (start exampleTenDays) = 9"
    using h3 by simp
  from C8_custom_ten_days [OF h1 this, of 1710506096789]
  have "generateTrendDataPoints 1710506096789 None exampleTenDays =
           map (\<lambda>k. \<lparr>name = format (startOfDay (start exampleTenDays) + k * msPerDay) ''MMM dd'',
                       timestamp = startOfDay (start exampleTenDays) + k * msPerDay,
                       value' = Fin 0\<rparr>) [0..9]"
    and "length (generateTrendDataPoints 1710506096789 None exampleTenDays) = 10"
    using h2 by simp_all
  then show ?thesis
    using h1 h2 h3 n t by (simp add: s comp_def)
qed

text \<open>
  The window from 2024-01-11 to 2024-01-21 (midnight to midnight) spans exactly 10 days
  and gets 11 daily buckets, the last one for January 21.
\<close>

theorem C8_eleven_buckets_counterexample:
  "\<not> truthy None
   \<and> end' exampleWindow - start exampleWindow = 10 * msPerDay
   \<and> daysDiff exampleWindow = 10
   \<and> length (generateTrendDataPoints 1710506096789 None exampleWindow) = 11
   \<and> length (generateTrendDataPoints 1710506096789 None exampleWindow) \<noteq> 10
   \<and> map name (generateTrendDataPoints 1710506096789 None exampleWindow) =
        [''Jan 11'', ''Jan 12'', ''Jan 13'', ''Jan 14'', ''Jan 15'', ''Jan 16'', ''Jan 17'',
         ''Jan 18'', ''Jan 19'', ''Jan 20'', ''Jan 21'']"
proof -
  have h1: "\<not> truthy None" by simp
  have h2: "end' exampleWindow = start exampleWindow + 10 * msPerDay"
    by (simp add: exampleWindow_def msPerDay_def)
  have h3: "dayNumber (end' exampleWindow) - dayNumber (start exampleWindow) = 10"
    by (simp add: exampleWindow_def dayNumber_def msPerDay_def)
  have s: "start exampleWindow = 1704931200000" by (simp add: exampleWindow_def)
  have n: "map (\<lambda>k. format (startOfDay 1704931200000 + k * msPerDay) ''MMM dd'') [0..10] =
        [''Jan 11'', ''Jan 12'', ''Jan 13'', ''Jan 14'', ''Jan 15'', ''Jan 16'', ''Jan 17'',
         ''Jan 18'', ''Jan 19'', ''Jan 20'', ''Jan 21'']"
    by code_simp
  have p: "generateTrendDataPoints 1710506096789 None exampleWindow =
           map (\<lambda>k. \<lparr>name = format (startOfDay (start exampleWindow) + k * msPerDay) ''MMM dd'',
                       timestamp = startOfDay (start exampleWindow) + k * msPerDay,
                       value' = Fin 0\<rparr>) [0..10]"
    using h1 h3 by (rule custom_daily_points(1)) simp_all
  have l: "length (generateTrendDataPoints 1710506096789 None exampleWindow) = 11"
    using h1 h2 by (rule custom_range_of_240_hours(1))
  have d: "daysDiff exampleWindow = 10"
    using h1 h2 by (rule custom_range_of_240_hours(2))
  show ?thesis
    using h1 h2 l d n by (simp add: p s comp_def)
qed

section \<open>Unknown timeframes\<close>

lemma unknown_timeframe_window:
  assumes "tf \<notin> {''Today'', ''Week'', ''Month'', ''Year''}"
  shows "getDateRange now tf = getDateRange now ''Today''"
  using assms by (simp add: getDateRange_def)

lemma unknown_timeframe_points:
  assumes "tf \<noteq> []" and "tf \<notin> {''Today'', ''Week'', ''Month'', ''Year''}"
  shows "generateTrendDataPoints now (Some tf) dr = []"
  using assms by (simp add: generateTrendDataPoints_def)

lemma fillTrendPoints_Nil: "fillTrendPoints timeframe dr transactions [] = []"
  unfolding fillTrendPoints_def by (induction transactions) simp_all

lemma names_fillTrendPoints:
  "map name (fillTrendPoints timeframe dr transactions points) = map name points"
  unfolding fillTrendPoints_def
  by (induction transactions arbitrary: points) (simp_all add: fillPoint_def comp_def)

text \<open>
  C9 (as amended). For every non-empty timeframe string that is none of Today, Week,
  Month and Year, and with no explicit range, the handler answers with the key figures,
  top products and category shares of today's window (compared with yesterday's), and
  with an empty sales trend.
\<close>

theorem C9_unknown_timeframe:
  assumes "truthy (userId req)"
    and "searchParams req ''timeframe'' = Some tf"
    and "tf \<noteq> []"
    and "tf \<notin> {''Today'', ''Week'', ''Month'', ''Year''}"
    and "\<not> (truthy (searchParams req ''start'') \<and> truthy (searchParams req ''end''))"
  shows "getDateRange now tf = getDateRange now ''Today''
    \<and> GET parse now db req =
       Ok \<lparr>metrics = metricsOf (findMany db (startOfDay now) (endOfDay now))
                      (findMany db (startOfDay (subDays now 1)) (endOfDay (subDays now 1))),
           salesTrend = [],
           topProducts = topProductsOf (findMany db (startOfDay now) (endOfDay now)),
           revenueByCategory = revenueByCategoryOf (findMany db (startOfDay now) (endOfDay now))\<rparr>"
proof -
  have w: "getDateRange now tf = getDateRange now ''Today''"
    by (rule unknown_timeframe_window [OF assms(4)])
  have res: "resolveDateRange parse now (Some tf)
      (searchParams req ''start'') (searchParams req ''end'') = Some (getDateRange now ''Today'')"
    using assms(3) by (simp add: resolveDateRange_named [OF assms(5)] w)
  have trend: "salesTrendOf now (Some tf) dr ts = []" for dr ts
    by (simp add: salesTrendOf_def unknown_timeframe_points [OF assms(3,4)] fillTrendPoints_Nil)
  have "GET parse now db req =
       Ok \<lparr>metrics = metricsOf (findMany db (startOfDay now) (endOfDay now))
                      (findMany db (startOfDay (subDays now 1)) (endOfDay (subDays now 1))),
           salesTrend = [],
           topProducts = topProductsOf (findMany db (startOfDay now) (endOfDay now)),
           revenueByCategory = revenueByCategoryOf (findMany db (startOfDay now) (endOfDay now))\<rparr>"
    using assms(1,2) by (simp add: GET_def res Let_def today_window trend)
  with w show ?thesis by simp
qed

theorem C9_unknown_timeframe_witness:
  "truthy (userId (exampleRequest (Some ''Quarter'') None None))
   \<and> ''Quarter'' \<noteq> []
   \<and> ''Quarter'' \<notin> {''Today'', ''Week'', ''Month'', ''Year''}
   \<and> findMany exampleMorning (startOfDay 1710506096789) (endOfDay 1710506096789) = exampleMorning
   \<and> findMany exampleMorning (startOfDay (subDays 1710506096789 1))
        (endOfDay (subDays 1710506096789 1)) = []
   \<and> GET exampleParse 1710506096789 exampleMorning (exampleRequest (Some ''Quarter'') None None) =
       Ok \<lparr>metrics = metricsOf exampleMorning [],
           salesTrend = [],
           topProducts = topProductsOf exampleMorning,
           revenueByCategory = revenueByCategoryOf exampleMorning\<rparr>
   \<and> totalRevenue (metricsOf exampleMorning []) = Fin 150"
proof -
  let ?req = "exampleRequest (Some ''Quarter'') None None"
  have a1: "truthy (userId ?req)" by (simp add: exampleRequest_def)
  have a2: "searchParams ?req ''timeframe'' = Some ''Quarter''" by (simp add: exampleRequest_def)
  have a3: "''Quarter'' \<noteq> []" by simp
  have a4: "''Quarter'' \<notin> {''Today'', ''Week'', ''Month'', ''Year''}" by simp
  have a5: "\<not> (truthy (searchParams ?req ''start'') \<and> truthy (searchParams ?req ''end''))"
    by (simp add: exampleRequest_def)
  have f1: "findMany exampleMorning (startOfDay 1710506096789) (endOfDay 1710506096789) = exampleMorning"
    by (simp add: findMany_def exampleMorning_def endOfDay_def startOfDay_def timeWithinDay_def
        msPerDay_def)
  have f2: "findMany exampleMorning (startOfDay (subDays 1710506096789 1))
        (endOfDay (subDays 1710506096789 1)) = []"
    by (simp add: findMany_def exampleMorning_def endOfDay_def startOfDay_def timeWithinDay_def
        subDays_def msPerDay_def)
  have fls: "fl 100 = Fin 100" "fl 150 = Fin 150"
    by (rule fl_whole; simp)+
  have t: "totalRevenue (metricsOf exampleMorning []) = Fin 150"
    by (simp add: metricsOf_def Let_def sumTotalAmount_def exampleMorning_def fls)
  show ?thesis
    using C9_unknown_timeframe [OF a1 a2 a3 a4 a5, of 1710506096789 exampleParse exampleMorning]
      a1 f1 f2 t
    by simp
qed

text \<open>
  The empty timeframe string (\<open>?timeframe=\<close>) is a non-null string that is none of the
  four names, but the generator treats it as absent: today's window is one day long, so
  the sales trend has the 24 hourly buckets.
\<close>

theorem C9_empty_timeframe_counterexample:
  "searchParams (exampleRequest (Some '''') None None) ''timeframe'' = Some ''''
   \<and> '''' \<notin> {''Today'', ''Week'', ''Month'', ''Year''}
   \<and> is_Ok (GET exampleParse 1710506096789 exampleMorning (exampleRequest (Some '''') None None))
   \<and> map trend_name (salesTrend (body
        (GET exampleParse 1710506096789 exampleMorning (exampleRequest (Some '''') None None)))) =
       [''0:00'', ''1:00'', ''2:00'', ''3:00'', ''4:00'', ''5:00'', ''6:00'', ''7:00'',
        ''8:00'', ''9:00'', ''10:00'', ''11:00'', ''12:00'', ''13:00'', ''14:00'', ''15:00'',
        ''16:00'', ''17:00'', ''18:00'', ''19:00'', ''20:00'', ''21:00'', ''22:00'', ''23:00'']
   \<and> salesTrend (body
        (GET exampleParse 1710506096789 exampleMorning (exampleRequest (Some '''') None None)))
       \<noteq> []"
proof -
  let ?req = "exampleRequest (Some '''') None None"
  let ?dr = "getDateRange 1710506096789 ''Today''"
  have res: "resolveDateRange exampleParse 1710506096789 (Some '''') None None = Some ?dr"
    by (simp add: resolveDateRange_def)
  have dd: "daysDiff ?dr = 1"
    by (simp add: daysDiff_def ceil_div_def today_window endOfDay_def msPerDay_def)
  have pts: "generateTrendDataPoints 1710506096789 (Some '''') ?dr = hourlyPoints (start ?dr)"
    by (simp add: generateTrendDataPoints_def dd)
  have names: "map trend_name (salesTrendOf 1710506096789 (Some '''') ?dr ts) =
       [''0:00'', ''1:00'', ''2:00'', ''3:00'', ''4:00'', ''5:00'', ''6:00'', ''7:00'',
        ''8:00'', ''9:00'', ''10:00'', ''11:00'', ''12:00'', ''13:00'', ''14:00'', ''15:00'',
        ''16:00'', ''17:00'', ''18:00'', ''19:00'', ''20:00'', ''21:00'', ''22:00'', ''23:00'']" for ts
  proof -
    have "map trend_name (salesTrendOf 1710506096789 (Some '''') ?dr ts) =
        map name (fillTrendPoints (Some '''') ?dr ts (hourlyPoints (start ?dr)))"
      by (simp add: salesTrendOf_def pts comp_def)
    then show ?thesis
      by (simp only: names_fillTrendPoints names_hourlyPoints)
  qed
  have get: "GET exampleParse 1710506096789 exampleMorning ?req =
      Ok \<lparr>metrics = metricsOf (findMany exampleMorning (start ?dr) (end' ?dr))
               (findMany exampleMorning (start (previous ?dr)) (end' (previous ?dr))),
          salesTrend = salesTrendOf 1710506096789 (Some '''') ?dr
               (findMany exampleMorning (start ?dr) (end' ?dr)),
          topProducts = topProductsOf (findMany exampleMorning (start ?dr) (end' ?dr)),
          revenueByCategory = revenueByCategoryOf (findMany exampleMorning (start ?dr) (end' ?dr))\<rparr>"
    by (simp add: GET_def exampleRequest_def res Let_def)
  have ne: "salesTrendOf 1710506096789 (Some '''') ?dr ts \<noteq> []" for ts
    using names [of ts] by auto
  show ?thesis
    by (simp add: get names ne) (simp add: exampleRequest_def)
qed

end
